theory Spec2Isabelle
  imports Complex_Main "HOL-Library.AList"
begin

section \<open>Shared vocabulary\<close>

text \<open>
  Errors raised anywhere in the execution core, one constructor per \<^verbatim>\<open>throw\<close> site (or
  rejection) of the source. The comment of each constructor quotes the message.
\<close>

datatype error =
    NotConnected
      \<comment> \<open>sendCommand: "Hybrid execution mode is selected but no local executor is connected yet. ..."\<close>
  | ExecutorDisconnected
      \<comment> \<open>disconnect: "Local executor disconnected"\<close>
  | ActionFailed string
      \<comment> \<open>handleResult, not ok: the executor's error text, or "Action failed"\<close>
  | TimedOut string nat
      \<comment> \<open>timer callback: "Command <action> timed out after <ms>ms"\<close>
  | LaunchFailed string
      \<comment> \<open>getPage: "Failed to launch browser. Is Chromium installed? ... Details: <msg>"\<close>
  | NavigationFailed string string
      \<comment> \<open>getPage: "Failed to navigate to <url>: <msg>"\<close>
  | SessionClosed
      \<comment> \<open>executeAction: "Browser session was closed. Please start a new session or navigate to a URL."\<close>
  | SessionLost
      \<comment> \<open>executeAction: "Browser session lost (detached frame). Please navigate to a URL to restart."\<close>
  | Thrown string
      \<comment> \<open>an exception of a library call (browser driver, file system, LLM client) passed on as it is\<close>

text \<open>JavaScript truthiness of an optional string: \<^verbatim>\<open>undefined\<close> and \<^verbatim>\<open>''\<close> are falsy.\<close>

fun truthy :: "string option \<Rightarrow> bool" where
  "truthy None = False"
| "truthy (Some s) = (s \<noteq> [])"

text \<open>The \<^verbatim>\<open>BrowserAction\<close> interface of the execution-adapter contract.\<close>

record BrowserAction =
  ba_action :: string
  ba_x :: "rat option"
  ba_y :: "rat option"
  ba_text :: "string option"
  ba_direction :: "string option"
  ba_url :: "string option"

section \<open>The hybrid execution adapter (class LocalExecutionAdapter)\<close>

text \<open>
  A step id is the string \<^verbatim>\<open>step_<Date.now()>_<stepCounter>\<close>; two such strings are equal
  exactly when both numbers are. \<open>ForeignId\<close> stands for every other string a result frame
  may carry. The counter is a JavaScript number that the adapter only ever increments from
  0, modelled as a natural number.
\<close>

datatype step_id = StepId nat nat | ForeignId string

datatype cmd_args = NoArgs | UrlArgs string | ActionArgs BrowserAction

datatype message =
    ExecutorHello
  | RunNextAction string step_id string cmd_args  \<comment> \<open>runId, stepId, action, args\<close>
  | RunStop string

text \<open>The value a command's promise is resolved with (\<^verbatim>\<open>res.base64\<close>, \<^verbatim>\<open>res.dom\<close>).\<close>

record payload =
  p_base64 :: "string option"
  p_dom :: "string option"

datatype outcome = Resolved "payload option" | Rejected error

text \<open>
  \<^verbatim>\<open>PendingRequest {resolve, reject, timer}\<close>: \<open>promise\<close> names the promise whose
  continuations \<^verbatim>\<open>resolve\<close> and \<^verbatim>\<open>reject\<close> are, \<open>timer\<close> the handle \<^verbatim>\<open>setTimeout\<close> returned.
\<close>

record PendingRequest =
  promise :: nat
  timer :: nat

text \<open>What the closure of a timeout callback captured.\<close>

record timeout_callback =
  t_step :: step_id
  t_promise :: nat
  t_action :: string
  t_ms :: nat

record observation =
  o_base64 :: "string option"
  o_filePath :: "string option"
  o_dom :: "string option"
  o_console :: "string list option"

text \<open>
  The adapter's fields, followed by the part of the JavaScript runtime its methods act on:
  the timers that are set and neither fired nor cleared, the next fresh handle (one
  \<^verbatim>\<open>new Promise\<close> and one \<^verbatim>\<open>setTimeout\<close> per command share it), for every promise the
  calls of its \<^verbatim>\<open>resolve\<close>/\<^verbatim>\<open>reject\<close> so far, the step id each promise was dispatched
  under, and the messages handed to the transport. \<open>pendingRequests\<close> is a JavaScript
  \<^verbatim>\<open>Map\<close>: an association list in insertion order.
\<close>

record adapter =
  activeStream :: "nat option"
  pendingRequests :: "(step_id \<times> PendingRequest) list"
  stepCounter :: nat
  lastObservation :: observation
  timers :: "nat \<rightharpoonup> timeout_callback"
  next_handle :: nat
  settled :: "nat \<Rightarrow> outcome list"
  issued :: "nat \<rightharpoonup> step_id"
  wire :: "(nat \<times> message) list"

definition new_adapter :: adapter where
  "new_adapter =
     \<lparr> activeStream = None, pendingRequests = [], stepCounter = 0,
       lastObservation = \<lparr> o_base64 = None, o_filePath = None, o_dom = None, o_console = None \<rparr>,
       timers = Map.empty, next_handle = 0, settled = (\<lambda>_. []), issued = Map.empty,
       wire = [] \<rparr>"

definition registerConnection :: "adapter \<Rightarrow> nat \<Rightarrow> adapter" where
  "registerConnection s sendMsgFn = s\<lparr> activeStream := Some sendMsgFn \<rparr>"

text \<open>The loop body of \<^verbatim>\<open>disconnect\<close>, over \<^verbatim>\<open>pendingRequests.values()\<close> in order.\<close>

primrec reject_all :: "(step_id \<times> PendingRequest) list \<Rightarrow> adapter \<Rightarrow> adapter" where
  "reject_all [] s = s"
| "reject_all (e # es) s =
     reject_all es
       (s\<lparr> timers := (timers s)(timer (snd e) := None),
           settled := (settled s)(promise (snd e) :=
             settled s (promise (snd e)) @ [Rejected ExecutorDisconnected]) \<rparr>)"

definition disconnect :: "adapter \<Rightarrow> adapter" where
  "disconnect s =
     (reject_all (pendingRequests s) (s\<lparr> activeStream := None \<rparr>))\<lparr> pendingRequests := [] \<rparr>"

definition hasSession :: "adapter \<Rightarrow> string \<Rightarrow> bool" where
  "hasSession s sessionId = (activeStream s \<noteq> None)"

definition handleResult ::
  "adapter \<Rightarrow> step_id \<Rightarrow> bool \<Rightarrow> payload option \<Rightarrow> string option \<Rightarrow> adapter" where
  "handleResult s stepId ok data err =
     (case map_of (pendingRequests s) stepId of
        None \<Rightarrow> s
      | Some req \<Rightarrow>
          s\<lparr> timers := (timers s)(timer req := None),
             pendingRequests := AList.delete stepId (pendingRequests s),
             settled := (settled s)(promise req := settled s (promise req) @
               [if ok then Resolved data
                else Rejected (ActionFailed (if truthy err then the err else ''Action failed''))]) \<rparr>)"

definition handleObservation ::
  "adapter \<Rightarrow> string option \<Rightarrow> string option \<Rightarrow> string list option \<Rightarrow> adapter" where
  "handleObservation s screenshotRef domSnapshot consoleErrors =
     s\<lparr> lastObservation := (lastObservation s)
         \<lparr> o_base64 := (if truthy screenshotRef then screenshotRef else o_base64 (lastObservation s)),
           o_dom := (if truthy domSnapshot then domSnapshot else o_dom (lastObservation s)),
           o_console := (if consoleErrors \<noteq> None then consoleErrors
                         else o_console (lastObservation s)) \<rparr> \<rparr>"

text \<open>
  \<^verbatim>\<open>sendCommand\<close>. Without a transport it throws before anything is allocated. Otherwise
  it returns the new promise (\<open>Inr\<close> of its handle) after setting the timer, storing the
  pending request and emitting \<^verbatim>\<open>run.next_action\<close>; \<open>now\<close> is \<^verbatim>\<open>Date.now()\<close>. The transport
  installed by the connect handler swallows its own failures, so emitting does not throw.
\<close>

definition sendCommand ::
  "adapter \<Rightarrow> string \<Rightarrow> string \<Rightarrow> cmd_args \<Rightarrow> nat \<Rightarrow> nat \<Rightarrow> (error + nat) \<times> adapter" where
  "sendCommand s sessionId actionName args timeoutMs now =
     (case activeStream s of
        None \<Rightarrow> (Inl NotConnected, s)
      | Some stream \<Rightarrow>
          (let stepId = StepId now (stepCounter s);
               h = next_handle s
           in (Inr h,
               s\<lparr> stepCounter := stepCounter s + 1,
                  next_handle := h + 1,
                  issued := (issued s)(h \<mapsto> stepId),
                  timers := (timers s)(h \<mapsto>
                    \<lparr> t_step = stepId, t_promise = h, t_action = actionName, t_ms = timeoutMs \<rparr>),
                  pendingRequests :=
                    AList.update stepId \<lparr> promise = h, timer = h \<rparr> (pendingRequests s),
                  wire := wire s @ [(stream, RunNextAction sessionId stepId actionName args)] \<rparr>)))"

text \<open>
  The timeout callback of timer \<open>h\<close>. The runtime runs it only while the timer is set, and
  a timer that has fired is no longer set.
\<close>

definition timer_fires :: "adapter \<Rightarrow> nat \<Rightarrow> adapter" where
  "timer_fires s h =
     (case timers s h of
        None \<Rightarrow> s
      | Some t \<Rightarrow>
          s\<lparr> timers := (timers s)(h := None),
             pendingRequests := AList.delete (t_step t) (pendingRequests s),
             settled := (settled s)(t_promise t := settled s (t_promise t) @
               [Rejected (TimedOut (t_action t) (t_ms t))]) \<rparr>)"

text \<open>
  The asynchronous operations of the adapter, up to their first \<^verbatim>\<open>await\<close>: \<open>Finished v\<close>
  when the operation returns without dispatching, \<open>Awaiting h\<close> when it waits for promise
  \<open>h\<close>. An \<open>Inl\<close> is an exception thrown before any command was dispatched.
\<close>

datatype 'a started = Finished 'a | Awaiting nat

definition DEFAULT_TIMEOUT_MS :: nat where
  "DEFAULT_TIMEOUT_MS = 30000"

definition getPage_remote ::
  "adapter \<Rightarrow> string \<Rightarrow> string option \<Rightarrow> nat \<Rightarrow> (error + unit started) \<times> adapter" where
  "getPage_remote s sessionId url now =
     (if truthy url then
        (case sendCommand s sessionId ''goto'' (UrlArgs (the url)) DEFAULT_TIMEOUT_MS now of
           (Inl e, s') \<Rightarrow> (Inl e, s')
         | (Inr h, s') \<Rightarrow> (Inr (Awaiting h), s'))
      else (Inr (Finished ()), s))"

definition captureScreenshot_remote ::
  "adapter \<Rightarrow> string \<Rightarrow> nat \<Rightarrow> (error + (string \<times> string) option started) \<times> adapter" where
  "captureScreenshot_remote s sessionId now =
     (case sendCommand s sessionId ''getScreenshot'' NoArgs DEFAULT_TIMEOUT_MS now of
        (Inl e, s') \<Rightarrow> (Inl e, s')
      | (Inr h, s') \<Rightarrow> (Inr (Awaiting h), s'))"

definition getSimplifiedDOM_remote ::
  "adapter \<Rightarrow> string \<Rightarrow> nat \<Rightarrow> (error + string started) \<times> adapter" where
  "getSimplifiedDOM_remote s sessionId now =
     (case sendCommand s sessionId ''getDOM'' NoArgs DEFAULT_TIMEOUT_MS now of
        (Inl e, s') \<Rightarrow> (Inl e, s')
      | (Inr h, s') \<Rightarrow> (Inr (Awaiting h), s'))"

definition executeAction_remote ::
  "adapter \<Rightarrow> string \<Rightarrow> BrowserAction \<Rightarrow> nat \<Rightarrow> (error + unit started) \<times> adapter" where
  "executeAction_remote s sessionId a now =
     (case sendCommand s sessionId (ba_action a) (ActionArgs a) DEFAULT_TIMEOUT_MS now of
        (Inl e, s') \<Rightarrow> (Inl e, s')
      | (Inr h, s') \<Rightarrow> (Inr (Awaiting h), s'))"

text \<open>The same operations after the awaited promise has settled with outcome \<open>r\<close>.\<close>

definition captureScreenshot_resume ::
  "adapter \<Rightarrow> string \<Rightarrow> string \<Rightarrow> outcome \<Rightarrow> (error + (string \<times> string) option) \<times> adapter" where
  "captureScreenshot_resume s outputDir stepLabel r =
     (case r of
        Rejected e \<Rightarrow> (Inl e, s)
      | Resolved None \<Rightarrow> (Inr None, s)
      | Resolved (Some res) \<Rightarrow>
          (if truthy (p_base64 res)
           then (Inr (Some (the (p_base64 res), outputDir @ ''/'' @ stepLabel @ ''.png'')),
                 s\<lparr> lastObservation := (lastObservation s)\<lparr> o_base64 := p_base64 res \<rparr> \<rparr>)
           else (Inr None, s)))"

definition getSimplifiedDOM_resume :: "adapter \<Rightarrow> outcome \<Rightarrow> (error + string) \<times> adapter" where
  "getSimplifiedDOM_resume s r =
     (case r of
        Rejected e \<Rightarrow> (Inl e, s)
      | Resolved None \<Rightarrow> (Inr [], s)
      | Resolved (Some res) \<Rightarrow>
          (if truthy (p_dom res)
           then (Inr (the (p_dom res)),
                 s\<lparr> lastObservation := (lastObservation s)\<lparr> o_dom := p_dom res \<rparr> \<rparr>)
           else (Inr [], s)))"

definition getConsoleErrors_remote :: "adapter \<Rightarrow> string \<Rightarrow> string list" where
  "getConsoleErrors_remote s sessionId =
     (case o_console (lastObservation s) of None \<Rightarrow> [] | Some es \<Rightarrow> es)"

definition closeSession_remote :: "adapter \<Rightarrow> string \<Rightarrow> adapter" where
  "closeSession_remote s sessionId =
     (case activeStream s of
        None \<Rightarrow> s
      | Some stream \<Rightarrow> s\<lparr> wire := wire s @ [(stream, RunStop sessionId)] \<rparr>)"

text \<open>
  Everything that can happen to the adapter, one event per call of a method or of a timeout
  callback, and the states reached from a fresh adapter.
\<close>

datatype event =
    RegisterConnection nat
  | Disconnect
  | HandleResult step_id bool "payload option" "string option"
  | HandleObservation "string option" "string option" "string list option"
  | SendCommand string string cmd_args nat nat
  | TimerFires nat
  | CloseSession string

fun step :: "adapter \<Rightarrow> event \<Rightarrow> adapter" where
  "step s (RegisterConnection f) = registerConnection s f"
| "step s Disconnect = disconnect s"
| "step s (HandleResult stepId ok data err) = handleResult s stepId ok data err"
| "step s (HandleObservation shot snap errs) = handleObservation s shot snap errs"
| "step s (SendCommand sessionId actionName args timeoutMs now) =
     snd (sendCommand s sessionId actionName args timeoutMs now)"
| "step s (TimerFires h) = timer_fires s h"
| "step s (CloseSession sessionId) = closeSession_remote s sessionId"

definition run :: "event list \<Rightarrow> adapter" where
  "run evs = foldl step new_adapter evs"

text \<open>
  The state of one dispatched command: \<open>in_flight\<close> while no continuation of its promise
  has been called, its entry is in the map and its timer is set; \<open>finished\<close> once exactly
  one continuation has been called, with the entry and the timer gone.
\<close>

definition in_flight :: "adapter \<Rightarrow> nat \<Rightarrow> step_id \<Rightarrow> bool" where
  "in_flight s h sid =
     (settled s h = [] \<and>
      map_of (pendingRequests s) sid = Some \<lparr> promise = h, timer = h \<rparr> \<and>
      (case timers s h of None \<Rightarrow> False | Some t \<Rightarrow> t_step t = sid \<and> t_promise t = h))"

definition finished :: "adapter \<Rightarrow> nat \<Rightarrow> step_id \<Rightarrow> bool" where
  "finished s h sid =
     (length (settled s h) = 1 \<and> map_of (pendingRequests s) sid = None \<and> timers s h = None)"

text \<open>What holds of every state reached from a fresh adapter.\<close>

definition adapter_inv :: "adapter \<Rightarrow> bool" where
  "adapter_inv s \<longleftrightarrow>
     distinct (map fst (pendingRequests s)) \<and>
     (\<forall>h sid. issued s h = Some sid \<longrightarrow> h < next_handle s) \<and>
     (\<forall>h h' sid. issued s h = Some sid \<longrightarrow> issued s h' = Some sid \<longrightarrow> h = h') \<and>
     (\<forall>h sid. issued s h = Some sid \<longrightarrow> (\<exists>n c. sid = StepId n c \<and> c < stepCounter s)) \<and>
     (\<forall>h sid. issued s h = Some sid \<longrightarrow> in_flight s h sid \<or> finished s h sid) \<and>
     (\<forall>sid req. map_of (pendingRequests s) sid = Some req \<longrightarrow>
        issued s (promise req) = Some sid \<and> timer req = promise req) \<and>
     (\<forall>h t. timers s h = Some t \<longrightarrow> issued s h = Some (t_step t) \<and> t_promise t = h) \<and>
     (\<forall>h. next_handle s \<le> h \<longrightarrow> settled s h = [])"


text \<open>A short run: two commands dispatched, the first answered twice.\<close>

definition demo_events :: "event list" where
  "demo_events =
     [RegisterConnection 7,
      SendCommand ''s1'' ''click'' NoArgs 30000 1000,
      SendCommand ''s1'' ''getDOM'' NoArgs 30000 1000,
      HandleResult (StepId 1000 0) True None None,
      HandleResult (StepId 1000 0) False None (Some ''late'')]"


section \<open>The session/browser manager (class BrowserManager)\<close>

text \<open>
  \<^verbatim>\<open>String.prototype.includes\<close> and \<^verbatim>\<open>toLowerCase\<close> (on the ASCII letters) for the
  messages the manager inspects.
\<close>

primrec str_includes :: "string \<Rightarrow> string \<Rightarrow> bool" where
  "str_includes [] needle = (needle = [])"
| "str_includes (c # cs) needle = (take (length needle) (c # cs) = needle \<or> str_includes cs needle)"

definition toLowerCase :: "string \<Rightarrow> string" where
  "toLowerCase str =
     map (\<lambda>c. if 65 \<le> (of_char c :: nat) \<and> (of_char c :: nat) \<le> 90
              then char_of ((of_char c :: nat) + 32) else c) str"

text \<open>
  \<^verbatim>\<open>interface BrowserSession\<close>. A browser and a page are handles into the browser driver,
  numbered here; the driver owns what they point to.
\<close>

record BrowserSession =
  browser :: nat
  page :: nat
  consoleErrors :: "string list"
  lastActivity :: nat
  headless :: bool

text \<open>The calls the manager makes into the browser driver and the file system, in order.\<close>

datatype driver_call =
    Launch bool
  | BrowserClose nat
  | BrowserPages nat
  | NewPage nat
  | SetViewport nat
  | Goto nat string
  | Screenshot nat
  | Evaluate nat
  | MouseClick nat "rat option" "rat option" nat
  | WaitForNetworkIdle nat
  | KeyboardPress nat string
  | KeyboardType nat "string option"
  | MouseWheel nat int
  | Mkdir string
  | WriteFile string

text \<open>
  What the environment answers during one call of a method: the clock, the display, and
  for every driver or file-system call either its value or (\<open>Inl\<close>, \<open>Some\<close>) the message of
  the exception it throws. \<open>w_screenshot\<close> gives the image already base64-encoded.
\<close>

record world =
  w_now :: nat
  w_no_display :: bool
  w_launch :: "bool \<Rightarrow> string + nat"
  w_pages :: "nat \<Rightarrow> string + nat list"
  w_newPage :: "nat \<Rightarrow> string + nat"
  w_setViewport :: "nat \<Rightarrow> string option"
  w_isClosed :: "nat \<Rightarrow> bool"
  w_url :: "nat \<Rightarrow> string + string"
  w_goto :: "nat \<Rightarrow> string \<Rightarrow> string option"
  w_screenshot :: "nat \<Rightarrow> string + string"
  w_evaluate :: "nat \<Rightarrow> string + string"
  w_click :: "nat \<Rightarrow> string option"
  w_press :: "nat \<Rightarrow> string option"
  w_type :: "nat \<Rightarrow> string option"
  w_wheel :: "nat \<Rightarrow> string option"
  w_existsSync :: "string \<Rightarrow> bool"
  w_mkdir :: "string \<Rightarrow> string option"
  w_writeFile :: "string \<Rightarrow> string option"
  w_join :: "string \<Rightarrow> string \<Rightarrow> string"

text \<open>
  The manager: the session map, and the log of the calls it has made. The periodic idle
  sweep and the shutdown are left out; no property below depends on them.
\<close>

record manager =
  sessions :: "string \<rightharpoonup> BrowserSession"
  driver_log :: "driver_call list"

definition new_manager :: manager where
  "new_manager = \<lparr> sessions = Map.empty, driver_log = [] \<rparr>"

definition logged :: "driver_call \<Rightarrow> manager \<Rightarrow> manager" where
  "logged c s = s\<lparr> driver_log := driver_log s @ [c] \<rparr>"

definition evict :: "string \<Rightarrow> manager \<Rightarrow> manager" where
  "evict sessionId s = s\<lparr> sessions := (sessions s)(sessionId := None) \<rparr>"

definition touch :: "world \<Rightarrow> string \<Rightarrow> BrowserSession \<Rightarrow> manager \<Rightarrow> manager" where
  "touch w sessionId se s =
     s\<lparr> sessions := (sessions s)(sessionId \<mapsto> se\<lparr> lastActivity := w_now w \<rparr>) \<rparr>"

definition resolveHeadlessMode :: "world \<Rightarrow> bool \<Rightarrow> bool" where
  "resolveHeadlessMode w requestedHeadless =
     (if \<not> requestedHeadless \<and> w_no_display w then True else requestedHeadless)"

text \<open>
  \<^verbatim>\<open>getPage\<close>, in the source's order. First the restart on a changed headless mode, which
  remembers the page's url unless it is blank or unreadable.
\<close>

definition restart_on_mode_change ::
  "world \<Rightarrow> string \<Rightarrow> bool \<Rightarrow> manager \<Rightarrow> string option \<times> BrowserSession option \<times> manager" where
  "restart_on_mode_change w sessionId effectiveHeadless s =
     (case sessions s sessionId of
        None \<Rightarrow> (None, None, s)
      | Some se \<Rightarrow>
          (if headless se \<noteq> effectiveHeadless then
             (let capturedUrl =
                    (case w_url w (page se) of
                       Inl _ \<Rightarrow> None
                     | Inr u \<Rightarrow> (if u = ''about:blank'' then None else Some u))
              in (capturedUrl, None, evict sessionId (logged (BrowserClose (browser se)) s)))
           else (None, Some se, s)))"

text \<open>Then the liveness check of a session that is still there.\<close>

definition discard_if_dead ::
  "world \<Rightarrow> string \<Rightarrow> BrowserSession option \<Rightarrow> manager \<Rightarrow> BrowserSession option \<times> manager" where
  "discard_if_dead w sessionId session s =
     (case session of
        None \<Rightarrow> (None, s)
      | Some se \<Rightarrow>
          (if w_isClosed w (page se) \<or> isl (w_url w (page se))
           then (None, evict sessionId (logged (BrowserClose (browser se)) s))
           else (Some se, s)))"

text \<open>
  The launch, with its one retry in headless mode when a headful launch fails for a
  missing X server. An exception of the retry is not wrapped.
\<close>

definition launch_browser :: "world \<Rightarrow> bool \<Rightarrow> manager \<Rightarrow> (error + nat) \<times> manager" where
  "launch_browser w effectiveHeadless s =
     (let s1 = logged (Launch effectiveHeadless) s in
      case w_launch w effectiveHeadless of
        Inr b \<Rightarrow> (Inr b, s1)
      | Inl msg \<Rightarrow>
          (if \<not> effectiveHeadless \<and> str_includes (toLowerCase msg) ''missing x server'' then
             (case w_launch w True of
                Inr b \<Rightarrow> (Inr b, logged (Launch True) s1)
              | Inl msg2 \<Rightarrow> (Inl (Thrown msg2), logged (Launch True) s1))
           else (Inl (LaunchFailed msg), s1)))"

text \<open>\<^verbatim>\<open>pages[0] || (await browser.newPage())\<close>, then \<^verbatim>\<open>setViewport\<close>.\<close>

definition first_page :: "world \<Rightarrow> nat \<Rightarrow> manager \<Rightarrow> (error + nat) \<times> manager" where
  "first_page w b s =
     (let s1 = logged (BrowserPages b) s in
      case w_pages w b of
        Inl msg \<Rightarrow> (Inl (Thrown msg), s1)
      | Inr ps \<Rightarrow>
          (case (case ps of
                   p # _ \<Rightarrow> (Inr p, s1)
                 | [] \<Rightarrow> (case w_newPage w b of
                            Inl msg \<Rightarrow> (Inl (Thrown msg), logged (NewPage b) s1)
                          | Inr p \<Rightarrow> (Inr p, logged (NewPage b) s1))) of
             (Inl e, s2) \<Rightarrow> (Inl e, s2)
           | (Inr p, s2) \<Rightarrow>
               (case w_setViewport w p of
                  Some msg \<Rightarrow> (Inl (Thrown msg), logged (SetViewport p) s2)
                | None \<Rightarrow> (Inr p, logged (SetViewport p) s2))))"

definition launch_session ::
  "world \<Rightarrow> string \<Rightarrow> string option \<Rightarrow> bool \<Rightarrow> manager \<Rightarrow> (error + nat) \<times> manager" where
  "launch_session w sessionId targetUrl effectiveHeadless s =
     (case launch_browser w effectiveHeadless s of
        (Inl e, s1) \<Rightarrow> (Inl e, s1)
      | (Inr b, s1) \<Rightarrow>
          (case first_page w b s1 of
             (Inl e, s2) \<Rightarrow> (Inl e, s2)
           | (Inr p, s2) \<Rightarrow>
               (let store = (\<lambda>s3. s3\<lparr> sessions := (sessions s3)(sessionId \<mapsto>
                                \<lparr> browser = b, page = p, consoleErrors = [],
                                  lastActivity = w_now w, headless = effectiveHeadless \<rparr>) \<rparr>)
                in if truthy targetUrl then
                     (case w_goto w p (the targetUrl) of
                        Some msg \<Rightarrow> (Inl (NavigationFailed (the targetUrl) msg),
                                     logged (Goto p (the targetUrl)) s2)
                      | None \<Rightarrow> (Inr p, store (logged (Goto p (the targetUrl)) s2)))
                   else (Inr p, store s2))))"

definition getPage ::
  "world \<Rightarrow> manager \<Rightarrow> string \<Rightarrow> string option \<Rightarrow> bool \<Rightarrow> (error + nat) \<times> manager" where
  "getPage w s sessionId url requestedHeadless =
     (let effectiveHeadless = resolveHeadlessMode w requestedHeadless in
      case restart_on_mode_change w sessionId effectiveHeadless s of
        (capturedUrl, session1, s1) \<Rightarrow>
          (case discard_if_dead w sessionId session1 s1 of
             (Some se, s2) \<Rightarrow>
               (let s3 = touch w sessionId se s2 in
                if truthy url \<and> Inr (the url) \<noteq> w_url w (page se) then
                  (case w_goto w (page se) (the url) of
                     Some msg \<Rightarrow> (Inl (Thrown msg), logged (Goto (page se) (the url)) s3)
                   | None \<Rightarrow> (Inr (page se), logged (Goto (page se) (the url)) s3))
                else (Inr (page se), s3))
           | (None, s2) \<Rightarrow>
               launch_session w sessionId (if truthy url then url else capturedUrl)
                 effectiveHeadless s2))"

definition hasSession_local :: "manager \<Rightarrow> string \<Rightarrow> bool" where
  "hasSession_local s sessionId = (sessions s sessionId \<noteq> None)"

text \<open>A console error or page error reported by page \<open>p\<close> is buffered in its session.\<close>

definition on_console_error :: "manager \<Rightarrow> string \<Rightarrow> string \<Rightarrow> manager" where
  "on_console_error s sessionId msg =
     (case sessions s sessionId of
        None \<Rightarrow> s
      | Some se \<Rightarrow>
          s\<lparr> sessions := (sessions s)(sessionId \<mapsto> se\<lparr> consoleErrors := consoleErrors se @ [msg] \<rparr>) \<rparr>)"

definition getConsoleErrors :: "manager \<Rightarrow> string \<Rightarrow> string list \<times> manager" where
  "getConsoleErrors s sessionId =
     (case sessions s sessionId of
        None \<Rightarrow> ([], s)
      | Some se \<Rightarrow>
          (consoleErrors se,
           s\<lparr> sessions := (sessions s)(sessionId \<mapsto> se\<lparr> consoleErrors := [] \<rparr>) \<rparr>))"

definition getSimplifiedDOM :: "world \<Rightarrow> manager \<Rightarrow> string \<Rightarrow> (error + string) \<times> manager" where
  "getSimplifiedDOM w s sessionId =
     (case sessions s sessionId of
        None \<Rightarrow> (Inr [], s)
      | Some se \<Rightarrow>
          (if w_isClosed w (page se) then (Inr [], evict sessionId s)
           else
             (case w_evaluate w (page se) of
                Inr snapshot \<Rightarrow> (Inr snapshot, logged (Evaluate (page se)) s)
              | Inl _ \<Rightarrow> (Inr [], evict sessionId (logged (Evaluate (page se)) s)))))"

text \<open>
  \<^verbatim>\<open>captureScreenshot\<close>. The output directory is made before the handle is looked at, and
  outside the \<^verbatim>\<open>try\<close>; writing the file is inside it.
\<close>

definition captureScreenshot ::
  "world \<Rightarrow> manager \<Rightarrow> string \<Rightarrow> string \<Rightarrow> string \<Rightarrow>
     (error + (string \<times> string) option) \<times> manager" where
  "captureScreenshot w s sessionId outputDir stepLabel =
     (case sessions s sessionId of
        None \<Rightarrow> (Inr None, s)
      | Some se \<Rightarrow>
          (case (if w_existsSync w outputDir then (None, s)
                 else (w_mkdir w outputDir, logged (Mkdir outputDir) s)) of
             (Some msg, s1) \<Rightarrow> (Inl (Thrown msg), s1)
           | (None, s1) \<Rightarrow>
               (let filePath = w_join w outputDir (stepLabel @ ''.jpg'') in
                if w_isClosed w (page se) then (Inr None, evict sessionId s1)
                else
                  (case w_screenshot w (page se) of
                     Inl _ \<Rightarrow> (Inr None, evict sessionId (logged (Screenshot (page se)) s1))
                   | Inr buffer \<Rightarrow>
                       (let s2 = logged (WriteFile filePath) (logged (Screenshot (page se)) s1) in
                        case w_writeFile w filePath of
                          Some _ \<Rightarrow> (Inr None, evict sessionId s2)
                        | None \<Rightarrow> (Inr (Some (buffer, filePath)), touch w sessionId se s2))))))"

text \<open>
  The \<^verbatim>\<open>switch\<close> of \<^verbatim>\<open>executeAction\<close> on page \<open>p\<close>: \<open>Some msg\<close> when a driver call throws.
  The wait for network idleness after a click swallows its own failure.
\<close>

definition perform :: "world \<Rightarrow> nat \<Rightarrow> BrowserAction \<Rightarrow> manager \<Rightarrow> string option \<times> manager" where
  "perform w p a s =
     (if ba_action a = ''navigate'' then
        (if truthy (ba_url a)
         then (w_goto w p (the (ba_url a)), logged (Goto p (the (ba_url a))) s)
         else (None, s))
      else if ba_action a = ''click'' then
        (case w_click w p of
           Some msg \<Rightarrow> (Some msg, logged (MouseClick p (ba_x a) (ba_y a) 1) s)
         | None \<Rightarrow> (None, logged (WaitForNetworkIdle p) (logged (MouseClick p (ba_x a) (ba_y a) 1) s)))
      else if ba_action a = ''type'' then
        (case (if ba_x a \<noteq> None \<and> ba_y a \<noteq> None then
                 (case w_click w p of
                    Some msg \<Rightarrow> (Some msg, logged (MouseClick p (ba_x a) (ba_y a) 3) s)
                  | None \<Rightarrow>
                      (w_press w p,
                       logged (KeyboardPress p ''Backspace'')
                         (logged (MouseClick p (ba_x a) (ba_y a) 3) s)))
               else (None, s)) of
           (Some msg, s1) \<Rightarrow> (Some msg, s1)
         | (None, s1) \<Rightarrow> (w_type w p, logged (KeyboardType p (ba_text a)) s1))
      else if ba_action a = ''scroll'' then
        (w_wheel w p,
         logged (MouseWheel p (if ba_direction a = Some ''down'' then 400 else - 400)) s)
      else (None, s))"

definition act_on_session ::
  "world \<Rightarrow> string \<Rightarrow> BrowserSession \<Rightarrow> BrowserAction \<Rightarrow> manager \<Rightarrow> (error + unit) \<times> manager" where
  "act_on_session w sessionId se a s =
     (let s1 = touch w sessionId se s in
      if w_isClosed w (page se) then (Inl SessionClosed, evict sessionId s1)
      else
        (case perform w (page se) a s1 of
           (None, s2) \<Rightarrow> (Inr (), s2)
         | (Some msg, s2) \<Rightarrow>
             (if str_includes msg ''detached Frame'' \<or> str_includes msg ''Target closed'' \<or>
                 str_includes msg ''Session closed''
              then (Inl SessionLost, evict sessionId s2)
              else (Inl (Thrown msg), s2))))"

definition executeAction ::
  "world \<Rightarrow> manager \<Rightarrow> string \<Rightarrow> BrowserAction \<Rightarrow> bool \<Rightarrow> (error + unit) \<times> manager" where
  "executeAction w s sessionId a requestedHeadless =
     (case (if sessions s sessionId = None \<and> ba_action a = ''navigate'' \<and> truthy (ba_url a)
            then (case getPage w s sessionId (ba_url a) requestedHeadless of
                    (Inl e, s1) \<Rightarrow> (Inl e, s1)
                  | (Inr _, s1) \<Rightarrow> (Inr (sessions s1 sessionId), s1))
            else (Inr (sessions s sessionId), s)) of
        (Inl e, s1) \<Rightarrow> (Inl e, s1)
      | (Inr None, s1) \<Rightarrow> (Inr (), s1)
      | (Inr (Some se), s1) \<Rightarrow> act_on_session w sessionId se a s1)"

definition closeSession :: "manager \<Rightarrow> string \<Rightarrow> manager" where
  "closeSession s sessionId =
     (case sessions s sessionId of
        None \<Rightarrow> s
      | Some se \<Rightarrow> evict sessionId (logged (BrowserClose (browser se)) s))"

text \<open>Concrete environments and states for the examples below.\<close>

definition quiet_world :: world where
  "quiet_world =
     \<lparr> w_now = 42, w_no_display = False,
       w_launch = (\<lambda>_. Inr 1), w_pages = (\<lambda>_. Inr [2]), w_newPage = (\<lambda>_. Inr 3),
       w_setViewport = (\<lambda>_. None), w_isClosed = (\<lambda>_. False),
       w_url = (\<lambda>_. Inr ''https://example.com/''), w_goto = (\<lambda>_ _. None),
       w_screenshot = (\<lambda>_. Inr ''aGk=''), w_evaluate = (\<lambda>_. Inr ''[0] <a>''),
       w_click = (\<lambda>_. None), w_press = (\<lambda>_. None), w_type = (\<lambda>_. None),
       w_wheel = (\<lambda>_. None), w_existsSync = (\<lambda>_. True), w_mkdir = (\<lambda>_. None),
       w_writeFile = (\<lambda>_. None), w_join = (\<lambda>d f. d @ ''/'' @ f) \<rparr>"

definition dead_world :: world where
  "dead_world = quiet_world\<lparr> w_isClosed := (\<lambda>_. True), w_existsSync := (\<lambda>_. False),
     w_mkdir := (\<lambda>_. Some ''EACCES'') \<rparr>"

definition demo_session :: BrowserSession where
  "demo_session = \<lparr> browser = 1, page = 2, consoleErrors = [''boom''], lastActivity = 7,
     headless = True \<rparr>"

definition demo_manager :: manager where
  "demo_manager = \<lparr> sessions = [''s1'' \<mapsto> demo_session], driver_log = [] \<rparr>"

definition click_action :: BrowserAction where
  "click_action = \<lparr> ba_action = ''click'', ba_x = Some 100, ba_y = Some 200, ba_text = None,
     ba_direction = None, ba_url = None \<rparr>"

definition navigate_action :: BrowserAction where
  "navigate_action = \<lparr> ba_action = ''navigate'', ba_x = None, ba_y = None, ba_text = None,
     ba_direction = None, ba_url = Some ''https://example.com/'' \<rparr>"

definition closed_page_world :: world where
  "closed_page_world = quiet_world\<lparr> w_isClosed := (\<lambda>_. True) \<rparr>"

section \<open>The action schema and the parser of the model's reply\<close>

text \<open>
  A parsed JSON value. An object keeps its properties in insertion order, as a JavaScript
  object does; assigning a property is \<open>AList.update\<close> and \<^verbatim>\<open>delete\<close> is \<open>AList.delete\<close>.
\<close>

datatype json =
    JNull
  | JBool bool
  | JNum rat
  | JStr string
  | JArr "json list"
  | JObj "(string \<times> json) list"

text \<open>Truthiness of a property read: a missing property is \<^verbatim>\<open>undefined\<close>.\<close>

fun js_truthy :: "json option \<Rightarrow> bool" where
  "js_truthy None = False"
| "js_truthy (Some JNull) = False"
| "js_truthy (Some (JBool b)) = b"
| "js_truthy (Some (JNum n)) = (n \<noteq> 0)"
| "js_truthy (Some (JStr s)) = (s \<noteq> [])"
| "js_truthy (Some (JArr _)) = True"
| "js_truthy (Some (JObj _)) = True"

definition REASONING_PLACEHOLDER :: string where
  "REASONING_PLACEHOLDER = ''Model omitted reasoning; auto-filled by parser.''"

text \<open>The three repairs of \<^verbatim>\<open>parseAction\<close>, in the source's order.\<close>

definition fix_type_secret :: "(string \<times> json) list \<Rightarrow> (string \<times> json) list" where
  "fix_type_secret parsed =
     (if map_of parsed ''action'' = Some (JStr ''type_secret'') \<and>
         \<not> js_truthy (map_of parsed ''key'') \<and> js_truthy (map_of parsed ''text'')
      then AList.delete ''text'' (AList.update ''key'' (the (map_of parsed ''text'')) parsed)
      else parsed)"

definition fill_reasoning :: "(string \<times> json) list \<Rightarrow> (string \<times> json) list" where
  "fill_reasoning parsed =
     (if js_truthy (map_of parsed ''action'') \<and> \<not> js_truthy (map_of parsed ''reasoning'')
      then AList.update ''reasoning'' (JStr REASONING_PLACEHOLDER) parsed
      else parsed)"

definition fix_use_skill :: "(string \<times> json) list \<Rightarrow> (string \<times> json) list" where
  "fix_use_skill parsed =
     (if js_truthy (map_of parsed ''use_skill'') \<and> \<not> js_truthy (map_of parsed ''action'')
      then AList.delete ''use_skill''
             (AList.update ''skill_name'' (the (map_of parsed ''use_skill''))
                (AList.update ''action'' (JStr ''use_skill'') parsed))
      else parsed)"

definition normalize :: "(string \<times> json) list \<Rightarrow> (string \<times> json) list" where
  "normalize parsed = fix_use_skill (fill_reasoning (fix_type_secret parsed))"

text \<open>\<^verbatim>\<open>AgentAction\<close>: the union \<^verbatim>\<open>ActionSchema\<close> infers, each variant with its reasoning last.\<close>

datatype AgentAction =
    Navigate string string
  | Click rat rat string
  | TypeText rat rat string string
  | Scroll string string
  | AskHuman string string
  | Done string string
  | ErrorAction string string
  | UseSkill string string
  | TypeSecret string rat rat string
  | TypeTestAccountSecret string rat rat string
  | RunScript string string "(string \<times> json) list" string

fun reasoning :: "AgentAction \<Rightarrow> string" where
  "reasoning (Navigate _ r) = r"
| "reasoning (Click _ _ r) = r"
| "reasoning (TypeText _ _ _ r) = r"
| "reasoning (Scroll _ r) = r"
| "reasoning (AskHuman _ r) = r"
| "reasoning (Done _ r) = r"
| "reasoning (ErrorAction _ r) = r"
| "reasoning (UseSkill _ r) = r"
| "reasoning (TypeSecret _ _ _ r) = r"
| "reasoning (TypeTestAccountSecret _ _ _ r) = r"
| "reasoning (RunScript _ _ _ r) = r"

text \<open>
  What the schema library reports: the path of the offending property and the kind of
  fault. Its wording of a fault is the library's, a parameter of the parser below.
\<close>

datatype issue_code = Required | InvalidType | InvalidEnumValue | InvalidDiscriminator

datatype zod_issue = Issue "string list" issue_code

definition string_issues :: "(string \<times> json) list \<Rightarrow> string \<Rightarrow> zod_issue list" where
  "string_issues obj k =
     (case map_of obj k of
        None \<Rightarrow> [Issue [k] Required]
      | Some (JStr _) \<Rightarrow> []
      | Some _ \<Rightarrow> [Issue [k] InvalidType])"

definition number_issues :: "(string \<times> json) list \<Rightarrow> string \<Rightarrow> zod_issue list" where
  "number_issues obj k =
     (case map_of obj k of
        None \<Rightarrow> [Issue [k] Required]
      | Some (JNum _) \<Rightarrow> []
      | Some _ \<Rightarrow> [Issue [k] InvalidType])"

definition enum_issues :: "(string \<times> json) list \<Rightarrow> string \<Rightarrow> string list \<Rightarrow> zod_issue list" where
  "enum_issues obj k allowed =
     (case map_of obj k of
        None \<Rightarrow> [Issue [k] Required]
      | Some (JStr v) \<Rightarrow> (if v \<in> set allowed then [] else [Issue [k] InvalidEnumValue])
      | Some _ \<Rightarrow> [Issue [k] InvalidType])"

definition record_issues :: "(string \<times> json) list \<Rightarrow> string \<Rightarrow> zod_issue list" where
  "record_issues obj k =
     (case map_of obj k of
        None \<Rightarrow> [Issue [k] Required]
      | Some (JObj _) \<Rightarrow> []
      | Some _ \<Rightarrow> [Issue [k] InvalidType])"

definition str_of :: "(string \<times> json) list \<Rightarrow> string \<Rightarrow> string" where
  "str_of obj k = (case map_of obj k of Some (JStr v) \<Rightarrow> v | _ \<Rightarrow> [])"

definition num_of :: "(string \<times> json) list \<Rightarrow> string \<Rightarrow> rat" where
  "num_of obj k = (case map_of obj k of Some (JNum v) \<Rightarrow> v | _ \<Rightarrow> 0)"

definition obj_of :: "(string \<times> json) list \<Rightarrow> string \<Rightarrow> (string \<times> json) list" where
  "obj_of obj k = (case map_of obj k of Some (JObj v) \<Rightarrow> v | _ \<Rightarrow> [])"

definition checked :: "zod_issue list \<Rightarrow> AgentAction \<Rightarrow> zod_issue list + AgentAction" where
  "checked issues a = (if issues = [] then Inr a else Inl issues)"

text \<open>
  \<^verbatim>\<open>ActionSchema.parse\<close>: a union discriminated by \<^verbatim>\<open>action\<close>; the chosen variant checks
  its properties in the order they are declared and reports every fault; properties the
  variant does not declare are dropped.
\<close>

definition ActionSchema_parse :: "json \<Rightarrow> zod_issue list + AgentAction" where
  "ActionSchema_parse v =
     (case v of
        JObj obj \<Rightarrow>
          (let r = string_issues obj ''reasoning''; rs = str_of obj ''reasoning'';
               xy = number_issues obj ''x'' @ number_issues obj ''y'';
               px = num_of obj ''x''; py = num_of obj ''y''
           in case map_of obj ''action'' of
                Some (JStr tag) \<Rightarrow>
                  (if tag = ''navigate'' then
                     checked (string_issues obj ''url'' @ r) (Navigate (str_of obj ''url'') rs)
                   else if tag = ''click'' then
                     checked (xy @ r) (Click px py rs)
                   else if tag = ''type'' then
                     checked (xy @ string_issues obj ''text'' @ r)
                       (TypeText px py (str_of obj ''text'') rs)
                   else if tag = ''scroll'' then
                     checked (enum_issues obj ''direction'' [''up'', ''down''] @ r)
                       (Scroll (str_of obj ''direction'') rs)
                   else if tag = ''ask_human'' then
                     checked (string_issues obj ''question'' @ r)
                       (AskHuman (str_of obj ''question'') rs)
                   else if tag = ''done'' then
                     checked (string_issues obj ''summary'' @ r) (Done (str_of obj ''summary'') rs)
                   else if tag = ''error'' then
                     checked (string_issues obj ''message'' @ r)
                       (ErrorAction (str_of obj ''message'') rs)
                   else if tag = ''use_skill'' then
                     checked (string_issues obj ''skill_name'' @ r)
                       (UseSkill (str_of obj ''skill_name'') rs)
                   else if tag = ''type_secret'' then
                     checked (string_issues obj ''key'' @ xy @ r)
                       (TypeSecret (str_of obj ''key'') px py rs)
                   else if tag = ''type_test_account_secret'' then
                     checked (enum_issues obj ''field'' [''username'', ''password''] @ xy @ r)
                       (TypeTestAccountSecret (str_of obj ''field'') px py rs)
                   else if tag = ''run_script'' then
                     checked (string_issues obj ''skill_name'' @ string_issues obj ''script'' @
                              record_issues obj ''args'' @ r)
                       (RunScript (str_of obj ''skill_name'') (str_of obj ''script'')
                          (obj_of obj ''args'') rs)
                   else Inl [Issue [''action''] InvalidDiscriminator])
              | _ \<Rightarrow> Inl [Issue [''action''] InvalidDiscriminator])
      | _ \<Rightarrow> Inl [Issue [] InvalidType])"

text \<open>\<^verbatim>\<open>path.join('.')\<close> and \<^verbatim>\<open>issues.map(...).join(', ')\<close>.\<close>

fun join_with :: "string \<Rightarrow> string list \<Rightarrow> string" where
  "join_with sep [] = []"
| "join_with sep [a] = a"
| "join_with sep (a # b # rest) = a @ sep @ join_with sep (b # rest)"

definition render_issue :: "(zod_issue \<Rightarrow> string) \<Rightarrow> zod_issue \<Rightarrow> string" where
  "render_issue wording i = (case i of Issue path _ \<Rightarrow> join_with ''.'' path @ '': '' @ wording i)"

definition parse_failure :: "string \<Rightarrow> string \<Rightarrow> AgentAction" where
  "parse_failure raw errorMessage =
     ErrorAction (''Failed to parse LLM response: '' @ errorMessage @ ''. Raw: '' @ take 200 raw)
       ''LLM returned invalid output''"

text \<open>
  \<^verbatim>\<open>parseAction\<close> from \<^verbatim>\<open>JSON.parse\<close> on: \<open>parsed\<close> is what \<^verbatim>\<open>JSON.parse\<close> made of the text
  between the first \<^verbatim>\<open>{\<close> and the last \<^verbatim>\<open>}\<close> of the reply \<open>raw\<close>, or \<open>Inl\<close> of the message of
  its \<^verbatim>\<open>SyntaxError\<close>. Reading a property of \<^verbatim>\<open>null\<close> throws a \<^verbatim>\<open>TypeError\<close>, which the
  \<^verbatim>\<open>catch\<close> reports as invalid JSON; on any other value that is not an object no repair
  applies and validation rejects it. Every exception ends in the \<^verbatim>\<open>catch\<close>, so the
  function always returns an action.
\<close>

definition parseAction :: "(zod_issue \<Rightarrow> string) \<Rightarrow> string \<Rightarrow> string + json \<Rightarrow> AgentAction" where
  "parseAction wording raw parsed =
     (case parsed of
        Inl msg \<Rightarrow> parse_failure raw (''JSON Parse error: '' @ msg)
      | Inr JNull \<Rightarrow> parse_failure raw ''LLM returned invalid JSON''
      | Inr v \<Rightarrow>
          (case ActionSchema_parse (case v of JObj obj \<Rightarrow> JObj (normalize obj) | _ \<Rightarrow> v) of
             Inr a \<Rightarrow> a
           | Inl issues \<Rightarrow>
               parse_failure raw
                 (''Validation error: '' @ join_with '', '' (map (render_issue wording) issues))))"

text \<open>The two payloads the specification names.\<close>

definition secret_with_text :: "(string \<times> json) list" where
  "secret_with_text = [(''action'', JStr ''type_secret''), (''text'', JStr ''FOO'')]"

definition bare_use_skill :: "(string \<times> json) list" where
  "bare_use_skill = [(''use_skill'', JStr ''standard-login'')]"

definition secret_with_text_at :: "(string \<times> json) list" where
  "secret_with_text_at =
     [(''action'', JStr ''type_secret''), (''text'', JStr ''FOO''), (''x'', JNum 10),
      (''y'', JNum 20)]"

section \<open>The agent action loop (the handler of a test-session message)\<close>

text \<open>
  The loop of the handler (lines 200 to 475) and what follows it. What the handler does
  before the loop (saving the message, the title, the first navigation, the intent
  router) only fixes the chat history the loop starts from.
\<close>

definition MAX_ACTIONS :: nat where
  "MAX_ACTIONS = 8"

datatype role = User | Agent | System

record ChatMessage =
  role :: role
  content :: string
  isSkillContext :: bool

datatype sse_type = Thought | ScreenshotEvent | ActionEvent | DoneEvent | AskHumanEvent | ErrorEvent

text \<open>The calls the loop makes to its collaborators: the execution adapter and the skills.\<close>

datatype collaborator_call =
    CaptureScreenshot
  | GetSimplifiedDOM
  | GetConsoleErrors
  | Reason
  | LoadSkillInstructions string
  | ExecuteSkillValidation string
  | ExecuteSkillScript string string
  | ExecuteAction BrowserAction bool

record validation =
  valid :: bool
  v_error :: "string option"

record script_result =
  s_output :: json
  s_error :: "string option"

record test_account =
  account_id :: string
  accountKey :: string
  username :: string
  password :: string

text \<open>
  What the collaborators answer, by the number of the iteration that asks (from 0). An
  \<open>Inl\<close> (for \<open>e_executeAction\<close> a \<open>Some\<close>) is an exception of the awaited call. The stop
  signal is the session's status being \<^verbatim>\<open>'stopped'\<close> in the database; \<open>e_number\<close> and
  \<open>e_stringify\<close> are JavaScript's rendering of a number in a template and
  \<^verbatim>\<open>JSON.stringify\<close>.
\<close>

record env =
  e_stopped_before :: "nat \<Rightarrow> error + bool"
  e_stopped_after :: "nat \<Rightarrow> error + bool"
  e_screenshots_disabled :: bool
  e_captureScreenshot :: "nat \<Rightarrow> error + (string \<times> string) option"
  e_finalScreenshot :: "error + (string \<times> string) option"
  e_getSimplifiedDOM :: "nat \<Rightarrow> error + string"
  e_getConsoleErrors :: "nat \<Rightarrow> string list"
  e_reason ::
    "nat \<Rightarrow> ChatMessage list \<Rightarrow> string \<Rightarrow> string \<Rightarrow> string list \<Rightarrow> string option \<Rightarrow>
       error + AgentAction"
  e_loadSkillInstructions :: "nat \<Rightarrow> string \<Rightarrow> string option"
  e_executeSkillValidation :: "nat \<Rightarrow> string \<Rightarrow> error + validation"
  e_executeSkillScript :: "nat \<Rightarrow> string \<Rightarrow> string \<Rightarrow> (string \<times> json) list \<Rightarrow> script_result"
  e_executeAction :: "nat \<Rightarrow> BrowserAction \<Rightarrow> bool \<Rightarrow> error option"
  e_process_env :: "string \<Rightarrow> string option"
  e_activeAccount :: "test_account option"
  e_headless :: "bool option"
  e_number :: "rat \<Rightarrow> string"
  e_stringify :: "json \<Rightarrow> string"

text \<open>
  The loop's variables, the events sent on the stream, and the collaborator calls made;
  \<open>iterations\<close> counts the entries into the loop body.
\<close>

record loop_state =
  actionCount :: nat
  agentFullText :: string
  activeSkillContext :: "string option"
  activeSkillName :: "string option"
  chatHistory :: "ChatMessage list"
  events :: "(sse_type \<times> string) list"
  calls :: "collaborator_call list"
  iterations :: nat

text \<open>How control leaves the loop body: on to the next iteration, or out of the loop.\<close>

datatype exit =
    Stopped
  | TripwireFailed
  | DoneExit
  | AskHumanExit
  | AgentErrorExit
  | BudgetExhausted
  | Exception error

datatype flow = Continue | Break exit

definition NL :: string where "NL = [CHR 0x0A]"
definition QUOTE :: string where "QUOTE = [CHR 0x22]"
definition APOS :: string where "APOS = [CHR 0x27]"
definition STOP_SIGN :: string where "STOP_SIGN = map char_of [0xF0, 0x9F, 0x9B, 0x91 :: nat]"
definition WARNING_SIGN :: string where
  "WARNING_SIGN = map char_of [0xE2, 0x9A, 0xA0, 0xEF, 0xB8, 0x8F :: nat]"
definition BOOKS :: string where "BOOKS = map char_of [0xF0, 0x9F, 0x93, 0x9A :: nat]"
definition CROSS_MARK :: string where "CROSS_MARK = map char_of [0xE2, 0x9D, 0x8C :: nat]"
definition CHECK_MARK :: string where "CHECK_MARK = map char_of [0xE2, 0x9C, 0x85 :: nat]"
definition QUESTION_MARK :: string where "QUESTION_MARK = map char_of [0xE2, 0x9D, 0x93 :: nat]"
definition DART :: string where "DART = map char_of [0xF0, 0x9F, 0x8E, 0xAF :: nat]"

definition send :: "sse_type \<Rightarrow> string \<Rightarrow> loop_state \<Rightarrow> loop_state" where
  "send ty data st = st\<lparr> events := events st @ [(ty, data)] \<rparr>"

definition say :: "string \<Rightarrow> loop_state \<Rightarrow> loop_state" where
  "say txt st = st\<lparr> agentFullText := agentFullText st @ txt \<rparr>"

definition push :: "role \<Rightarrow> string \<Rightarrow> bool \<Rightarrow> loop_state \<Rightarrow> loop_state" where
  "push r txt skill st =
     st\<lparr> chatHistory := chatHistory st @ [\<lparr> role = r, content = txt, isSkillContext = skill \<rparr>] \<rparr>"

definition called :: "collaborator_call \<Rightarrow> loop_state \<Rightarrow> loop_state" where
  "called c st = st\<lparr> calls := calls st @ [c] \<rparr>"

definition count_action :: "loop_state \<Rightarrow> loop_state" where
  "count_action st = st\<lparr> actionCount := actionCount st + 1 \<rparr>"

definition stop_now :: "loop_state \<Rightarrow> flow \<times> loop_state" where
  "stop_now st =
     (Break Stopped,
      say (NL @ STOP_SIGN @ '' Agent stopped by user.'') (send ErrorEvent ''Agent stopped by user.'' st))"

definition ALREADY_ACTIVE_NOTE :: "string \<Rightarrow> string" where
  "ALREADY_ACTIVE_NOTE name =
     ''System: STOP! Skill '' @ APOS @ name @ APOS @ '' is ALREADY loaded and active. You are stuck in a loop. DO NOT call use_skill again. LOOK at the skill instructions in your context and execute the NEXT step (e.g., type_text into a field).''"

definition tripwire_message :: "string \<Rightarrow> validation \<Rightarrow> string" where
  "tripwire_message name v =
     (if truthy (v_error v)
      then ''Skill '' @ APOS @ name @ APOS @ '' requires configuration: '' @ the (v_error v) @
           ''. Please fix this to use the skill.''
      else ''Skill '' @ APOS @ name @ APOS @ '' validation failed. The environment or state does not meet the skill's strict requirements (Tripwire check).'')"

text \<open>The \<^verbatim>\<open>use_skill\<close> branch.\<close>

definition use_skill :: "env \<Rightarrow> nat \<Rightarrow> string \<Rightarrow> loop_state \<Rightarrow> flow \<times> loop_state" where
  "use_skill env i name st =
     (if activeSkillName st = Some name then
        (Continue,
         count_action
           (push System (ALREADY_ACTIVE_NOTE name) False
              (send Thought
                 (WARNING_SIGN @ '' Skill '' @ APOS @ name @ APOS @ '' is already active. Preventing loop.'') st)))
      else
        (let skillInstructions = e_loadSkillInstructions env i name;
             st1 = called (LoadSkillInstructions name) st
         in if truthy skillInstructions then
              (let st2 = called (ExecuteSkillValidation name) st1 in
               case e_executeSkillValidation env i name of
                 Inl e \<Rightarrow> (Break (Exception e), st2)
               | Inr v \<Rightarrow>
                   (if \<not> valid v then
                      (Break TripwireFailed,
                       say (NL @ CROSS_MARK @ '' '' @ tripwire_message name v)
                         (send ErrorEvent (tripwire_message name v) st2))
                    else
                      (Continue,
                       count_action
                         (push System
                            (''[Skill: '' @ name @ ''] '' @ the skillInstructions) True
                            (say (NL @ BOOKS @ '' Loaded skill: '' @ name)
                               (send Thought (BOOKS @ '' Loaded skill: '' @ name)
                                  (st2\<lparr> activeSkillContext := skillInstructions,
                                        activeSkillName := Some name \<rparr>)))))))
            else
              (Continue,
               count_action
                 (say (NL @ CROSS_MARK @ '' Skill not found: '' @ name)
                    (send ErrorEvent (''Skill not found: '' @ name) st1)))))"

text \<open>The label of an executed action and the data of its \<^verbatim>\<open>action\<close> event.\<close>

definition with_point :: "string \<Rightarrow> rat \<Rightarrow> rat \<Rightarrow> json" where
  "with_point label px py = JObj [(''label'', JStr label), (''x'', JNum px), (''y'', JNum py)]"

definition only_label :: "string \<Rightarrow> json" where
  "only_label label = JObj [(''label'', JStr label)]"

fun describe :: "env \<Rightarrow> AgentAction \<Rightarrow> string \<times> json" where
  "describe env (Navigate u _) =
     (''Navigating to '' @ u, only_label (''Navigating to '' @ u))"
| "describe env (Click px py _) =
     (''Clicking at ('' @ e_number env px @ '', '' @ e_number env py @ '')'',
      with_point (''Clicking at ('' @ e_number env px @ '', '' @ e_number env py @ '')'') px py)"
| "describe env (TypeText px py txt _) =
     (''Typing '' @ QUOTE @ txt @ QUOTE, with_point (''Typing '' @ QUOTE @ txt @ QUOTE) px py)"
| "describe env (Scroll d _) = (''Scrolling '' @ d, only_label (''Scrolling '' @ d))"
| "describe env (TypeSecret k px py _) =
     (''Typing secret from env.'' @ k, with_point (''Typing secret from env.'' @ k) px py)"
| "describe env (TypeTestAccountSecret f px py _) =
     (''Typing test account '' @ f @ '' from selected account '' @
        (case e_activeAccount env of Some acct \<Rightarrow> accountKey acct | None \<Rightarrow> ''<none>''),
      with_point
        (''Typing test account '' @ f @ '' from selected account '' @
           (case e_activeAccount env of Some acct \<Rightarrow> accountKey acct | None \<Rightarrow> ''<none>''))
        px py)"
| "describe env (RunScript sk sc _ _) =
     (''Running script: '' @ sk @ ''/'' @ sc, only_label (''Running script: '' @ sk @ ''/'' @ sc))"
| "describe env _ = ([], JNull)"

definition type_at :: "rat \<Rightarrow> rat \<Rightarrow> string \<Rightarrow> BrowserAction" where
  "type_at px py txt =
     \<lparr> ba_action = ''type'', ba_x = Some px, ba_y = Some py, ba_text = Some txt,
       ba_direction = None, ba_url = None \<rparr>"

text \<open>The action handed to the adapter on the "normal actions" path.\<close>

fun verbatim :: "AgentAction \<Rightarrow> BrowserAction" where
  "verbatim (Navigate u _) =
     \<lparr> ba_action = ''navigate'', ba_x = None, ba_y = None, ba_text = None, ba_direction = None,
       ba_url = Some u \<rparr>"
| "verbatim (Click px py _) =
     \<lparr> ba_action = ''click'', ba_x = Some px, ba_y = Some py, ba_text = None,
       ba_direction = None, ba_url = None \<rparr>"
| "verbatim (TypeText px py txt _) = type_at px py txt"
| "verbatim (Scroll d _) =
     \<lparr> ba_action = ''scroll'', ba_x = None, ba_y = None, ba_text = None, ba_direction = Some d,
       ba_url = None \<rparr>"
| "verbatim _ =
     \<lparr> ba_action = [], ba_x = None, ba_y = None, ba_text = None, ba_direction = None,
       ba_url = None \<rparr>"

text \<open>
  \<^verbatim>\<open>executeAction\<close> through the adapter, then the entry in the chat history and the count.
  An exception leaves the loop for the handler's \<^verbatim>\<open>catch\<close>.
\<close>

definition execute ::
  "env \<Rightarrow> nat \<Rightarrow> AgentAction \<Rightarrow> string \<Rightarrow> BrowserAction \<Rightarrow> loop_state \<Rightarrow> flow \<times> loop_state" where
  "execute env i a label ba st =
     (let hl = (case e_headless env of Some h \<Rightarrow> h | None \<Rightarrow> True);
          st1 = called (ExecuteAction ba hl) st
      in case e_executeAction env i ba hl of
           Some e \<Rightarrow> (Break (Exception e), st1)
         | None \<Rightarrow>
             (Continue,
              count_action (push Agent (reasoning a @ NL @ ''Action: '' @ label) False st1)))"

text \<open>Lines 338 to 474: announce the action, then scripts, secrets, and the rest.\<close>

definition act :: "env \<Rightarrow> nat \<Rightarrow> AgentAction \<Rightarrow> loop_state \<Rightarrow> flow \<times> loop_state" where
  "act env i a st =
     (let label = fst (describe env a);
          st1 = say (NL @ DART @ '' '' @ label)
                  (send ActionEvent
                     (case snd (describe env a) of JNull \<Rightarrow> [] | d \<Rightarrow> e_stringify env d) st)
      in case a of
           RunScript sk sc args _ \<Rightarrow>
             (let result = e_executeSkillScript env i sk sc args in
              (Continue,
               count_action
                 (push System
                    (''[Script Result] Output: '' @ e_stringify env (s_output result) @ '' '' @
                       (if truthy (s_error result) then ''Error: '' @ the (s_error result) else []))
                    False
                    (called (ExecuteSkillScript sk sc) st1))))
         | TypeSecret k px py _ \<Rightarrow>
             (if k = ''TEST_USER'' \<or> k = ''TEST_USER_PASSWORD'' then
                (Continue,
                 count_action
                   (push System
                      ''Error: legacy TEST_USER env keys are disabled. Use type_test_account_secret with selected DB account.''
                      False
                      (send ErrorEvent
                         ''TEST_USER and TEST_USER_PASSWORD are no longer supported. Select a test account for this session and use type_test_account_secret.''
                         st1)))
              else if \<not> truthy (e_process_env env k) then
                (Continue,
                 count_action
                   (push System (''Error: Environment variable '' @ k @ '' is not set.'') False
                      (send ErrorEvent (''Missing env var: '' @ k) st1)))
              else execute env i a label (type_at px py (the (e_process_env env k))) st1)
         | TypeTestAccountSecret f px py _ \<Rightarrow>
             (case e_activeAccount env of
                None \<Rightarrow>
                  (Continue,
                   count_action
                     (push System ''Error: no active test account selected.'' False
                        (send ErrorEvent ''No active test account selected for this session.'' st1)))
              | Some acct \<Rightarrow>
                  execute env i a label
                    (type_at px py (if f = ''username'' then username acct else password acct)) st1)
         | _ \<Rightarrow> execute env i a label (verbatim a) st1)"

text \<open>Lines 268 to 474: what the loop does with the action the reasoning step returned.\<close>

definition handle_action :: "env \<Rightarrow> nat \<Rightarrow> AgentAction \<Rightarrow> loop_state \<Rightarrow> flow \<times> loop_state" where
  "handle_action env i a st =
     (case a of
        UseSkill name _ \<Rightarrow> use_skill env i name st
      | Done summary _ \<Rightarrow>
          (Break DoneExit,
           (say (NL @ CHECK_MARK @ '' '' @ summary) (send DoneEvent summary st))
             \<lparr> activeSkillContext := None, activeSkillName := None \<rparr>)
      | AskHuman question _ \<Rightarrow>
          (Break AskHumanExit,
           say (NL @ QUESTION_MARK @ '' '' @ question) (send AskHumanEvent question st))
      | ErrorAction msg _ \<Rightarrow>
          (Break AgentErrorExit, say (NL @ CROSS_MARK @ '' '' @ msg) (send ErrorEvent msg st))
      | _ \<Rightarrow> act env i a st)"

text \<open>Lines 207 to 266: stop check, observation, reasoning, second stop check.\<close>

definition iteration :: "env \<Rightarrow> loop_state \<Rightarrow> flow \<times> loop_state" where
  "iteration env st =
     (let i = iterations st; st0 = st\<lparr> iterations := i + 1 \<rparr> in
      case e_stopped_before env i of
        Inl e \<Rightarrow> (Break (Exception e), st0)
      | Inr True \<Rightarrow> stop_now st0
      | Inr False \<Rightarrow>
          (case (if e_screenshots_disabled env then (Inr None, st0)
                 else (e_captureScreenshot env i, called CaptureScreenshot st0)) of
             (Inl e, st1) \<Rightarrow> (Break (Exception e), st1)
           | (Inr screenshot, st1) \<Rightarrow>
               (let st2 = (case screenshot of
                             Some shot \<Rightarrow> send ScreenshotEvent (fst shot) st1
                           | None \<Rightarrow> st1);
                    st3 = called GetSimplifiedDOM st2
                in case e_getSimplifiedDOM env i of
                     Inl e \<Rightarrow> (Break (Exception e), st3)
                   | Inr snapshot \<Rightarrow>
                       (let st4 = called Reason (called GetConsoleErrors st3) in
                        case e_reason env i (chatHistory st4)
                               (case screenshot of Some shot \<Rightarrow> fst shot | None \<Rightarrow> [])
                               snapshot (e_getConsoleErrors env i) (activeSkillContext st4) of
                          Inl e \<Rightarrow> (Break (Exception e), st4)
                        | Inr a \<Rightarrow>
                            (let st5 = say ((if agentFullText st4 = [] then [] else NL) @
                                            reasoning a)
                                         (send Thought (reasoning a) st4)
                             in case e_stopped_after env i of
                                  Inl e \<Rightarrow> (Break (Exception e), st5)
                                | Inr True \<Rightarrow> stop_now st5
                                | Inr False \<Rightarrow> handle_action env i a st5)))))"

text \<open>Each helper changes the fields it names and no other.\<close>

lemma send_fields [simp]:
  "actionCount (send ty d st) = actionCount st"
  "agentFullText (send ty d st) = agentFullText st"
  "activeSkillContext (send ty d st) = activeSkillContext st"
  "activeSkillName (send ty d st) = activeSkillName st"
  "chatHistory (send ty d st) = chatHistory st"
  "events (send ty d st) = events st @ [(ty, d)]"
  "calls (send ty d st) = calls st"
  "iterations (send ty d st) = iterations st"
  by (simp_all add: send_def)

lemma say_fields [simp]:
  "actionCount (say txt st) = actionCount st"
  "agentFullText (say txt st) = agentFullText st @ txt"
  "activeSkillContext (say txt st) = activeSkillContext st"
  "activeSkillName (say txt st) = activeSkillName st"
  "chatHistory (say txt st) = chatHistory st"
  "events (say txt st) = events st"
  "calls (say txt st) = calls st"
  "iterations (say txt st) = iterations st"
  by (simp_all add: say_def)

lemma push_fields [simp]:
  "actionCount (push r txt k st) = actionCount st"
  "agentFullText (push r txt k st) = agentFullText st"
  "activeSkillContext (push r txt k st) = activeSkillContext st"
  "activeSkillName (push r txt k st) = activeSkillName st"
  "chatHistory (push r txt k st) =
     chatHistory st @ [\<lparr> role = r, content = txt, isSkillContext = k \<rparr>]"
  "events (push r txt k st) = events st"
  "calls (push r txt k st) = calls st"
  "iterations (push r txt k st) = iterations st"
  by (simp_all add: push_def)

lemma called_fields [simp]:
  "actionCount (called c st) = actionCount st"
  "agentFullText (called c st) = agentFullText st"
  "activeSkillContext (called c st) = activeSkillContext st"
  "activeSkillName (called c st) = activeSkillName st"
  "chatHistory (called c st) = chatHistory st"
  "events (called c st) = events st"
  "calls (called c st) = calls st @ [c]"
  "iterations (called c st) = iterations st"
  by (simp_all add: called_def)

lemma count_action_fields [simp]:
  "actionCount (count_action st) = actionCount st + 1"
  "agentFullText (count_action st) = agentFullText st"
  "activeSkillContext (count_action st) = activeSkillContext st"
  "activeSkillName (count_action st) = activeSkillName st"
  "chatHistory (count_action st) = chatHistory st"
  "events (count_action st) = events st"
  "calls (count_action st) = calls st"
  "iterations (count_action st) = iterations st"
  by (simp_all add: count_action_def)

lemma use_skill_Continue:
  "use_skill env i name st = (Continue, st') \<Longrightarrow>
     actionCount st' = actionCount st + 1 \<and> iterations st' = iterations st"
  by (auto simp: use_skill_def Let_def split: if_splits sum.splits)

lemma execute_Continue:
  "execute env i a label ba st = (Continue, st') \<Longrightarrow>
     actionCount st' = actionCount st + 1 \<and> iterations st' = iterations st"
  by (auto simp: execute_def Let_def split: option.splits)

lemma act_Continue:
  "act env i a st = (Continue, st') \<Longrightarrow>
     actionCount st' = actionCount st + 1 \<and> iterations st' = iterations st"
  by (cases a) (auto simp: act_def Let_def dest!: execute_Continue split: if_splits option.splits)

lemma handle_action_Continue:
  "handle_action env i a st = (Continue, st') \<Longrightarrow>
     actionCount st' = actionCount st + 1 \<and> iterations st' = iterations st"
  by (cases a) (auto simp: handle_action_def dest!: use_skill_Continue act_Continue)

lemma stop_now_Break: "fst (stop_now st) \<noteq> Continue"
  by (simp add: stop_now_def)

lemma iteration_Continue:
  assumes "iteration env st = (Continue, st')"
  shows "actionCount st' = actionCount st + 1 \<and> iterations st' = iterations st + 1"
proof -
  from assms obtain a st5 where h: "handle_action env (iterations st) a st5 = (Continue, st')"
    and c: "actionCount st5 = actionCount st" "iterations st5 = iterations st + 1"
    by (auto simp: iteration_def Let_def stop_now_def
        split: sum.splits bool.splits if_splits option.splits prod.splits)
  from handle_action_Continue[OF h] c show ?thesis by simp
qed

text \<open>
  The loop: \<^verbatim>\<open>while (actionCount < MAX_ACTIONS)\<close>. Every pass that comes back for another
  has counted one action, which is why the loop ends.
\<close>

function agent_loop :: "env \<Rightarrow> loop_state \<Rightarrow> exit \<times> loop_state" where
  "agent_loop env st =
     (if actionCount st < MAX_ACTIONS then
        (case iteration env st of
           (Continue, st') \<Rightarrow> agent_loop env st'
         | (Break x, st') \<Rightarrow> (x, st'))
      else (BudgetExhausted, st))"
  by pat_completeness auto
termination
proof (relation "measure (\<lambda>(env, st). MAX_ACTIONS - actionCount st)")
  show "wf (measure (\<lambda>(env, st). MAX_ACTIONS - actionCount st))" by simp
next
  fix env st x st'
  assume a: "actionCount st < MAX_ACTIONS" "(x, st') = iteration env st" "x = Continue"
  then have "iteration env st = (Continue, st')" by simp
  from iteration_Continue[OF this] a(1)
  show "((env, st'), (env, st)) \<in> measure (\<lambda>(env, st). MAX_ACTIONS - actionCount st)"
    by simp
qed

declare agent_loop.simps [simp del]

text \<open>
  What the handler's \<^verbatim>\<open>catch\<close> sends for an exception: its message, with the connectivity
  error of the hybrid adapter reworded.
\<close>

fun error_text :: "env \<Rightarrow> error \<Rightarrow> string" where
  "error_text env NotConnected =
     ''Hybrid Mode is selected, but no local executor is connected yet. Switch this test to Single-node Mode or connect a local executor runtime.''"
| "error_text env ExecutorDisconnected = ''Local executor disconnected''"
| "error_text env (ActionFailed msg) = msg"
| "error_text env (TimedOut a ms) =
     ''Command '' @ a @ '' timed out after '' @ e_number env (of_nat ms) @ ''ms''"
| "error_text env (LaunchFailed msg) =
     ''Failed to launch browser. Is Chromium installed? Run '' @ QUOTE @
     ''npx puppeteer browsers install chrome'' @ QUOTE @ ''. Details: '' @ msg"
| "error_text env (NavigationFailed u msg) = ''Failed to navigate to '' @ u @ '': '' @ msg"
| "error_text env SessionClosed =
     ''Browser session was closed. Please start a new session or navigate to a URL.''"
| "error_text env SessionLost =
     ''Browser session lost (detached frame). Please navigate to a URL to restart.''"
| "error_text env (Thrown msg) = msg"

text \<open>
  After the loop (lines 477 to 513): the final screenshot, or the \<^verbatim>\<open>catch\<close> when the loop or
  that screenshot threw. Saving the transcript is outside the model.
\<close>

definition finish :: "env \<Rightarrow> exit \<times> loop_state \<Rightarrow> exit \<times> loop_state" where
  "finish env r =
     (case r of
        (Exception e, st) \<Rightarrow> (Exception e, send ErrorEvent (error_text env e) st)
      | (x, st) \<Rightarrow>
          (if e_screenshots_disabled env then (x, st)
           else
             (case e_finalScreenshot env of
                Inl e \<Rightarrow>
                  (Exception e, send ErrorEvent (error_text env e) (called CaptureScreenshot st))
              | Inr None \<Rightarrow> (x, called CaptureScreenshot st)
              | Inr (Some shot) \<Rightarrow>
                  (x, send ScreenshotEvent (fst shot) (called CaptureScreenshot st)))))"

definition start :: "ChatMessage list \<Rightarrow> loop_state" where
  "start history =
     \<lparr> actionCount = 0, agentFullText = [], activeSkillContext = None, activeSkillName = None,
       chatHistory = history, events = [], calls = [], iterations = 0 \<rparr>"

fun is_terminal :: "AgentAction \<Rightarrow> bool" where
  "is_terminal (Done _ _) = True"
| "is_terminal (AskHuman _ _) = True"
| "is_terminal (ErrorAction _ _) = True"
| "is_terminal _ = False"

fun is_browser_action :: "collaborator_call \<Rightarrow> bool" where
  "is_browser_action (ExecuteAction _ _) = True"
| "is_browser_action _ = False"

text \<open>
  Environments for the examples: one whose reasoning step always scrolls and where nothing
  fails; the same with no executor attached to the hybrid adapter; one whose reasoning
  step asks for the same skill every time; and one whose skill fails its validation.
\<close>

definition scrolling_env :: env where
  "scrolling_env =
     \<lparr> e_stopped_before = (\<lambda>_. Inr False), e_stopped_after = (\<lambda>_. Inr False),
       e_screenshots_disabled = False,
       e_captureScreenshot = (\<lambda>_. Inr None), e_finalScreenshot = Inr None,
       e_getSimplifiedDOM = (\<lambda>_. Inr []), e_getConsoleErrors = (\<lambda>_. []),
       e_reason = (\<lambda>_ _ _ _ _ _. Inr (Scroll ''down'' ''more'')),
       e_loadSkillInstructions = (\<lambda>_ _. Some ''1. Open the login form''),
       e_executeSkillValidation = (\<lambda>_ _. Inr \<lparr> valid = True, v_error = None \<rparr>),
       e_executeSkillScript = (\<lambda>_ _ _ _. \<lparr> s_output = JNull, s_error = None \<rparr>),
       e_executeAction = (\<lambda>_ _ _. None), e_process_env = (\<lambda>_. None),
       e_activeAccount = None, e_headless = None,
       e_number = (\<lambda>_. ''0''), e_stringify = (\<lambda>_. ''{}'') \<rparr>"

definition offline_env :: env where
  "offline_env = scrolling_env\<lparr> e_captureScreenshot := (\<lambda>_. Inl NotConnected) \<rparr>"

definition skill_env :: env where
  "skill_env =
     scrolling_env\<lparr> e_reason := (\<lambda>_ _ _ _ _ _. Inr (UseSkill ''standard-login'' ''log in'')) \<rparr>"

definition tripwire_env :: env where
  "tripwire_env =
     skill_env\<lparr> e_executeSkillValidation :=
       (\<lambda>_ _. Inr \<lparr> valid = False, v_error = Some ''DATABASE_URL is missing.'' \<rparr>) \<rparr>"

definition skilled_state :: loop_state where
  "skilled_state =
     (start [])\<lparr> activeSkillContext := Some ''1. Open the login form'',
                 activeSkillName := Some ''standard-login'' \<rparr>"
section \<open>The hybrid adapter settles every command exactly once\<close>

lemma inv_frame:
  assumes "pendingRequests s' = pendingRequests s" "timers s' = timers s"
    "settled s' = settled s" "issued s' = issued s" "next_handle s' = next_handle s"
    "stepCounter s' = stepCounter s"
  shows "adapter_inv s' = adapter_inv s"
  unfolding adapter_inv_def in_flight_def finished_def by (simp only: assms)

lemma inv_new: "adapter_inv new_adapter"
  by (simp add: adapter_inv_def new_adapter_def)

lemma inv_register: "adapter_inv s \<Longrightarrow> adapter_inv (registerConnection s f)"
  by (subst inv_frame[of _ s]) (simp_all add: registerConnection_def)

lemma inv_observation: "adapter_inv s \<Longrightarrow> adapter_inv (handleObservation s a b c)"
  by (subst inv_frame[of _ s]) (simp_all add: handleObservation_def)

lemma inv_close: "adapter_inv s \<Longrightarrow> adapter_inv (closeSession_remote s a)"
  by (subst inv_frame[of _ s]) (simp_all add: closeSession_remote_def split: option.splits)

lemma inv_D:
  assumes "adapter_inv s"
  shows "distinct (map fst (pendingRequests s))"
    and "\<And>h sid. issued s h = Some sid \<Longrightarrow> h < next_handle s"
    and "\<And>h h' sid. issued s h = Some sid \<Longrightarrow> issued s h' = Some sid \<Longrightarrow> h = h'"
    and "\<And>h sid. issued s h = Some sid \<Longrightarrow> \<exists>n c. sid = StepId n c \<and> c < stepCounter s"
    and "\<And>h sid. issued s h = Some sid \<Longrightarrow> in_flight s h sid \<or> finished s h sid"
    and "\<And>sid req. map_of (pendingRequests s) sid = Some req \<Longrightarrow>
        issued s (promise req) = Some sid \<and> timer req = promise req"
    and "\<And>h t. timers s h = Some t \<Longrightarrow> issued s h = Some (t_step t) \<and> t_promise t = h"
    and "\<And>h. next_handle s \<le> h \<Longrightarrow> settled s h = []"
  using assms unfolding adapter_inv_def by blast+

lemma inv_I:
  assumes "distinct (map fst (pendingRequests s))"
    and "\<And>h sid. issued s h = Some sid \<Longrightarrow> h < next_handle s"
    and "\<And>h h' sid. issued s h = Some sid \<Longrightarrow> issued s h' = Some sid \<Longrightarrow> h = h'"
    and "\<And>h sid. issued s h = Some sid \<Longrightarrow> \<exists>n c. sid = StepId n c \<and> c < stepCounter s"
    and "\<And>h sid. issued s h = Some sid \<Longrightarrow> in_flight s h sid \<or> finished s h sid"
    and "\<And>sid req. map_of (pendingRequests s) sid = Some req \<Longrightarrow>
        issued s (promise req) = Some sid \<and> timer req = promise req"
    and "\<And>h t. timers s h = Some t \<Longrightarrow> issued s h = Some (t_step t) \<and> t_promise t = h"
    and "\<And>h. next_handle s \<le> h \<Longrightarrow> settled s h = []"
  shows "adapter_inv s"
  unfolding adapter_inv_def using assms by blast

lemma inv_send: 
  assumes "adapter_inv s" 
  shows "adapter_inv (snd (sendCommand s a b c d e))"
proof (cases "activeStream s")
  case None
  then show ?thesis using assms by (simp add: sendCommand_def)
next
  case (Some f)
  note D = inv_D[OF assms]
  let ?sid = "StepId e (stepCounter s)"
  let ?h = "next_handle s"
  define s' where "s' = snd (sendCommand s a b c d e)"
  have fresh: "\<And>h. issued s h \<noteq> Some ?sid"
    using D(4) by fastforce
  have nopend: "map_of (pendingRequests s) ?sid = None"
    using D(6) fresh by (metis not_Some_eq)
  have notimer: "timers s ?h = None"
    using D(7) D(2) by (metis less_irrefl not_Some_eq)
  have noissued: "issued s ?h = None"
    using D(2) by (metis less_irrefl not_Some_eq)
  have f1: "pendingRequests s' = AList.update ?sid \<lparr>promise = ?h, timer = ?h\<rparr> (pendingRequests s)"
    and f2: "timers s' = (timers s)(?h \<mapsto> \<lparr> t_step = ?sid, t_promise = ?h, t_action = b, t_ms = d \<rparr>)"
    and f3: "settled s' = settled s" and f4: "issued s' = (issued s)(?h \<mapsto> ?sid)"
    and f5: "next_handle s' = ?h + 1" and f6: "stepCounter s' = stepCounter s + 1"
    using Some by (simp_all add: s'_def sendCommand_def Let_def)
  have m: "map_of (pendingRequests s') = (map_of (pendingRequests s))(?sid \<mapsto> \<lparr>promise = ?h, timer = ?h\<rparr>)"
    by (simp add: f1 update_conv')
  have old: "\<And>h sid. issued s h = Some sid \<Longrightarrow> h \<noteq> ?h \<and> sid \<noteq> ?sid"
    using fresh noissued by auto
  have "adapter_inv s'"
  proof (rule inv_I)
    show "distinct (map fst (pendingRequests s'))" by (simp add: f1 distinct_update D(1))
  next
    fix h sid assume "issued s' h = Some sid"
    then show "h < next_handle s'" using D(2) by (auto simp: f4 f5 less_Suc_eq split: if_splits)
  next
    fix h h' sid assume "issued s' h = Some sid" "issued s' h' = Some sid"
    then show "h = h'" using D(3) fresh by (auto simp: f4 split: if_splits)
  next
    fix h sid assume "issued s' h = Some sid"
    then show "\<exists>n c. sid = StepId n c \<and> c < stepCounter s'"
      using D(4) by (fastforce simp: f4 f6 less_Suc_eq split: if_splits)
  next
    fix h sid assume a: "issued s' h = Some sid"
    show "in_flight s' h sid \<or> finished s' h sid"
    proof (cases "h = ?h")
      case True
      then have "sid = ?sid" using a by (simp add: f4)
      then have "in_flight s' h sid" using True D(8)[of ?h]
        by (simp add: in_flight_def m f2 f3)
      then show ?thesis ..
    next
      case False
      then have i: "issued s h = Some sid" using a by (simp add: f4)
      then have ne: "sid \<noteq> ?sid" using fresh by auto
      from D(5)[OF i] show ?thesis using False ne
        by (simp add: in_flight_def finished_def m f2 f3)
    qed
  next
    fix sid req assume a: "map_of (pendingRequests s') sid = Some req"
    show "issued s' (promise req) = Some sid \<and> timer req = promise req"
    proof (cases "sid = ?sid")
      case True then show ?thesis using a by (auto simp: m f4)
    next
      case False
      then have "map_of (pendingRequests s) sid = Some req" using a by (simp add: m)
      from D(6)[OF this] show ?thesis using noissued by (auto simp: f4)
    qed
  next
    fix h t assume a: "timers s' h = Some t"
    show "issued s' h = Some (t_step t) \<and> t_promise t = h"
    proof (cases "h = ?h")
      case True then show ?thesis using a by (auto simp: f2 f4)
    next
      case False
      then have "timers s h = Some t" using a by (simp add: f2)
      from D(7)[OF this] show ?thesis using False by (simp add: f4)
    qed
  next
    fix h assume "next_handle s' \<le> h"
    then show "settled s' h = []" using D(8)[of h] by (simp add: f3 f5)
  qed
  then show ?thesis by (simp add: s'_def)
qed

lemma inv_result:
  assumes "adapter_inv s"
  shows "adapter_inv (handleResult s sid0 ok data err)"
proof (cases "map_of (pendingRequests s) sid0")
  case None
  then show ?thesis using assms by (simp add: handleResult_def)
next
  case (Some req)
  note D = inv_D[OF assms]
  define s' where "s' = handleResult s sid0 ok data err"
  define h0 where "h0 = promise req"
  have r: "issued s h0 = Some sid0" "timer req = h0" using D(6)[OF Some] by (simp_all add: h0_def)
  have fl: "in_flight s h0 sid0" using D(5)[OF r(1)] Some by (auto simp: finished_def)
  obtain x where f3: "settled s' = (settled s)(h0 := settled s h0 @ [x])"
    using Some by (simp add: s'_def handleResult_def h0_def)
  have f1: "pendingRequests s' = AList.delete sid0 (pendingRequests s)"
    and f2: "timers s' = (timers s)(h0 := None)"
    and f4: "issued s' = issued s" and f5: "next_handle s' = next_handle s" 
    and f6: "stepCounter s' = stepCounter s"
    using Some r by (simp_all add: s'_def handleResult_def)
  have m: "map_of (pendingRequests s') = (map_of (pendingRequests s))(sid0 := None)"
    by (simp add: f1 delete_conv')
  have "adapter_inv s'"
  proof (rule inv_I)
    show "distinct (map fst (pendingRequests s'))" by (simp add: f1 distinct_delete D(1))
  next
    fix h sid assume "issued s' h = Some sid"
    then show "h < next_handle s'" using D(2) by (simp add: f4 f5)
  next
    fix h h' sid assume "issued s' h = Some sid" "issued s' h' = Some sid"
    then show "h = h'" using D(3) by (simp add: f4)
  next
    fix h sid assume "issued s' h = Some sid"
    then show "\<exists>n c. sid = StepId n c \<and> c < stepCounter s'"
      using D(4) by (simp add: f4 f6)
  next
    fix h sid assume "issued s' h = Some sid"
    then have i: "issued s h = Some sid" by (simp add: f4)
    show "in_flight s' h sid \<or> finished s' h sid"
    proof (cases "h = h0")
      case True
      then have "sid = sid0" using i r by simp
      then have "finished s' h sid" using True fl
        by (simp add: finished_def in_flight_def m f2 f3)
      then show ?thesis ..
    next
      case False
      then have ne: "sid \<noteq> sid0" using D(3)[OF i] r by auto
      from D(5)[OF i] show ?thesis using False ne
        by (simp add: in_flight_def finished_def m f2 f3)
    qed
  next
    fix sid req' assume a: "map_of (pendingRequests s') sid = Some req'"
    then have "map_of (pendingRequests s) sid = Some req'" by (simp add: m split: if_splits)
    from D(6)[OF this] show "issued s' (promise req') = Some sid \<and> timer req' = promise req'"
      by (simp add: f4)
  next
    fix h t assume a: "timers s' h = Some t"
    then have "timers s h = Some t" by (simp add: f2 split: if_splits)
    from D(7)[OF this] show "issued s' h = Some (t_step t) \<and> t_promise t = h" by (simp add: f4)
  next
    fix h assume a: "next_handle s' \<le> h"
    then have "h \<noteq> h0" using D(2)[OF r(1)] by (auto simp: f5)
    then show "settled s' h = []" using D(8)[of h] a by (simp add: f3 f5)
  qed
  then show ?thesis by (simp add: s'_def)
qed


lemma inv_timer:
  assumes "adapter_inv s"
  shows "adapter_inv (timer_fires s h0)"
proof (cases "timers s h0")
  case None
  then show ?thesis using assms by (simp add: timer_fires_def)
next
  case (Some t)
  note D = inv_D[OF assms]
  define s' where "s' = timer_fires s h0"
  define sid0 where "sid0 = t_step t"
  have r: "issued s h0 = Some sid0" "t_promise t = h0" using D(7)[OF Some] by (simp_all add: sid0_def)
  have fl: "in_flight s h0 sid0" using D(5)[OF r(1)] Some by (auto simp: finished_def)
  obtain x where f3: "settled s' = (settled s)(h0 := settled s h0 @ [x])"
    using Some r by (simp add: s'_def timer_fires_def)
  have f1: "pendingRequests s' = AList.delete sid0 (pendingRequests s)"
    and f2: "timers s' = (timers s)(h0 := None)"
    and f4: "issued s' = issued s" and f5: "next_handle s' = next_handle s" 
    and f6: "stepCounter s' = stepCounter s"
    using Some r by (simp_all add: s'_def timer_fires_def sid0_def)
  have m: "map_of (pendingRequests s') = (map_of (pendingRequests s))(sid0 := None)"
    by (simp add: f1 delete_conv')
  have "adapter_inv s'"
  proof (rule inv_I)
    show "distinct (map fst (pendingRequests s'))" by (simp add: f1 distinct_delete D(1))
  next
    fix h sid assume "issued s' h = Some sid"
    then show "h < next_handle s'" using D(2) by (simp add: f4 f5)
  next
    fix h h' sid assume "issued s' h = Some sid" "issued s' h' = Some sid"
    then show "h = h'" using D(3) by (simp add: f4)
  next
    fix h sid assume "issued s' h = Some sid"
    then show "\<exists>n c. sid = StepId n c \<and> c < stepCounter s'"
      using D(4) by (simp add: f4 f6)
  next
    fix h sid assume "issued s' h = Some sid"
    then have i: "issued s h = Some sid" by (simp add: f4)
    show "in_flight s' h sid \<or> finished s' h sid"
    proof (cases "h = h0")
      case True
      then have "sid = sid0" using i r by simp
      then have "finished s' h sid" using True fl
        by (simp add: finished_def in_flight_def m f2 f3)
      then show ?thesis ..
    next
      case False
      then have ne: "sid \<noteq> sid0" using D(3)[OF i] r by auto
      from D(5)[OF i] show ?thesis using False ne
        by (simp add: in_flight_def finished_def m f2 f3)
    qed
  next
    fix sid req' assume a: "map_of (pendingRequests s') sid = Some req'"
    then have "map_of (pendingRequests s) sid = Some req'" by (simp add: m split: if_splits)
    from D(6)[OF this] show "issued s' (promise req') = Some sid \<and> timer req' = promise req'"
      by (simp add: f4)
  next
    fix h t' assume a: "timers s' h = Some t'"
    then have "timers s h = Some t'" by (simp add: f2 split: if_splits)
    from D(7)[OF this] show "issued s' h = Some (t_step t') \<and> t_promise t' = h" by (simp add: f4)
  next
    fix h assume a: "next_handle s' \<le> h"
    then have "h \<noteq> h0" using D(2)[OF r(1)] by (auto simp: f5)
    then show "settled s' h = []" using D(8)[of h] a by (simp add: f3 f5)
  qed
  then show ?thesis by (simp add: s'_def)
qed

lemma reject_all_frame:
  "activeStream (reject_all es s) = activeStream s"
  "pendingRequests (reject_all es s) = pendingRequests s"
  "stepCounter (reject_all es s) = stepCounter s"
  "lastObservation (reject_all es s) = lastObservation s"
  "next_handle (reject_all es s) = next_handle s"
  "issued (reject_all es s) = issued s"
  "wire (reject_all es s) = wire s"
  by (induction es arbitrary: s) simp_all

lemma reject_all_timers:
  "timers (reject_all es s) h = (if h \<in> (\<lambda>e. timer (snd e)) ` set es then None else timers s h)"
  by (induction es arbitrary: s) auto

lemma reject_all_settled:
  "settled (reject_all es s) h =
     settled s h @ replicate (length (filter (\<lambda>e. promise (snd e) = h) es)) (Rejected ExecutorDisconnected)"
  by (induction es arbitrary: s) (auto simp: replicate_append_same)

lemma count_distinct_image:
  "distinct (map f xs) \<Longrightarrow> length (filter (\<lambda>e. f e = h) xs) = (if h \<in> f ` set xs then 1 else 0)"
  by (induction xs) auto

lemma inv_disconnect:
  assumes "adapter_inv s"
  shows "adapter_inv (disconnect s)"
proof -
  note D = inv_D[OF assms]
  define s' where "s' = disconnect s"
  let ?P = "pendingRequests s"
  let ?g = "\<lambda>e. promise (snd e)"
  have mem: "\<And>sid req. (sid, req) \<in> set ?P \<longleftrightarrow> map_of ?P sid = Some req"
    using D(1) by simp
  have pend: "issued s (promise (snd e)) = Some (fst e) \<and> timer (snd e) = promise (snd e)"
    if "e \<in> set ?P" for e
  proof -
    from that have "(fst e, snd e) \<in> set ?P" by simp
    then have "map_of ?P (fst e) = Some (snd e)" by (simp only: mem)
    from D(6)[OF this] show ?thesis .
  qed
  have inj: "inj_on ?g (set ?P)"
  proof (rule inj_onI)
    fix a b assume a: "a \<in> set ?P" "b \<in> set ?P" "promise (snd a) = promise (snd b)"
    have "Some (fst a) = Some (fst b)" using pend[OF a(1)] pend[OF a(2)] a(3) by simp
    then have k: "fst a = fst b" by simp
    have "map_of ?P (fst a) = Some (snd a)" "map_of ?P (fst b) = Some (snd b)"
      using a(1,2) mem[of "fst a" "snd a"] mem[of "fst b" "snd b"] by simp_all
    then have "snd a = snd b" using k by simp
    then show "a = b" using k by (simp add: prod_eq_iff)
  qed
  have dP: "distinct ?P" using D(1) by (rule distinct_map[THEN iffD1, THEN conjunct1])
  have dist: "distinct (map ?g ?P)"
    using dP inj by (simp only: distinct_map simp_thms)
  have timg: "(\<lambda>e. timer (snd e)) ` set ?P = ?g ` set ?P"
    by (rule image_cong) (simp_all add: pend)
  have img1: "\<exists>sid. in_flight s h sid \<and> issued s h = Some sid" if "h \<in> ?g ` set ?P" for h
  proof -
    from that obtain e where e: "e \<in> set ?P" "h = promise (snd e)" by auto
    then have i: "issued s h = Some (fst e)" using pend by simp
    have "map_of ?P (fst e) = Some (snd e)" using e(1) mem[of "fst e" "snd e"] by simp
    then have "in_flight s h (fst e)" using D(5)[OF i] by (auto simp: finished_def)
    then show ?thesis using i by blast
  qed
  have img2: "h \<in> ?g ` set ?P" if "in_flight s h sid" for h sid
  proof -
    from that have "map_of ?P sid = Some \<lparr>promise = h, timer = h\<rparr>"
      by (simp add: in_flight_def)
    then have "(sid, \<lparr>promise = h, timer = h\<rparr>) \<in> set ?P" by (simp only: mem)
    then have "?g (sid, \<lparr>promise = h, timer = h\<rparr>) \<in> ?g ` set ?P" by (rule imageI)
    then show ?thesis by simp
  qed
  have f1: "pendingRequests s' = []"
    and f4: "issued s' = issued s" and f5: "next_handle s' = next_handle s" 
    and f6: "stepCounter s' = stepCounter s"
    by (simp_all add: s'_def disconnect_def reject_all_frame)
  have f2: "\<And>h. timers s' h = (if h \<in> ?g ` set ?P then None else timers s h)"
    by (simp add: s'_def disconnect_def reject_all_timers timg)
  have f3: "\<And>h. settled s' h = settled s h @ 
        (if h \<in> ?g ` set ?P then [Rejected ExecutorDisconnected] else [])"
    by (simp add: s'_def disconnect_def reject_all_settled count_distinct_image[OF dist])
  have "adapter_inv s'"
  proof (rule inv_I)
    show "distinct (map fst (pendingRequests s'))" by (simp add: f1)
  next
    fix h sid assume "issued s' h = Some sid"
    then show "h < next_handle s'" using D(2) by (simp add: f4 f5)
  next
    fix h h' sid assume "issued s' h = Some sid" "issued s' h' = Some sid"
    then show "h = h'" using D(3) by (simp add: f4)
  next
    fix h sid assume "issued s' h = Some sid"
    then show "\<exists>n c. sid = StepId n c \<and> c < stepCounter s'"
      using D(4) by (simp add: f4 f6)
  next
    fix h sid assume "issued s' h = Some sid"
    then have i: "issued s h = Some sid" by (simp add: f4)
    show "in_flight s' h sid \<or> finished s' h sid"
    proof (cases "in_flight s h sid")
      case True
      then have "h \<in> ?g ` set ?P" by (rule img2)
      then have "finished s' h sid" using True
        by (simp add: finished_def in_flight_def f1 f2 f3)
      then show ?thesis ..
    next
      case False
      then have fin: "finished s h sid" using D(5)[OF i] by simp
      have "h \<notin> ?g ` set ?P"
      proof
        assume "h \<in> ?g ` set ?P"
        then obtain sid' where "in_flight s h sid'" using img1 by blast
        then show False using fin by (simp add: in_flight_def finished_def)
      qed
      then have "finished s' h sid" using fin by (simp add: finished_def f1 f2 f3)
      then show ?thesis ..
    qed
  next
    fix sid req' assume a: "map_of (pendingRequests s') sid = Some req'"
    then show "issued s' (promise req') = Some sid \<and> timer req' = promise req'"
      by (simp add: f1)
  next
    fix h t' assume a: "timers s' h = Some t'"
    then have "timers s h = Some t'" by (simp add: f2 split: if_splits)
    from D(7)[OF this] show "issued s' h = Some (t_step t') \<and> t_promise t' = h" by (simp add: f4)
  next
    fix h assume a: "next_handle s' \<le> h"
    have "h \<notin> ?g ` set ?P"
    proof
      assume "h \<in> ?g ` set ?P"
      then obtain sid' where "issued s h = Some sid'" using img1 by blast
      then have "h < next_handle s" by (rule D(2))
      then show False using a by (simp add: f5)
    qed
    then show "settled s' h = []" using D(8)[of h] a by (simp add: f3 f5)
  qed
  then show ?thesis by (simp add: s'_def)
qed

lemma inv_step: "adapter_inv s \<Longrightarrow> adapter_inv (step s ev)"
  by (cases ev) (simp_all add: inv_register inv_disconnect inv_result inv_observation inv_send
      inv_timer inv_close)

lemma inv_foldl: "adapter_inv s \<Longrightarrow> adapter_inv (foldl step s evs)"
  by (induction evs arbitrary: s) (simp_all add: inv_step)

lemma inv_run: "adapter_inv (run evs)"
  by (simp add: run_def inv_foldl inv_new)

lemma handleResult_not_pending:
  "map_of (pendingRequests s) sid = None \<Longrightarrow> handleResult s sid ok data err = s"
  by (simp add: handleResult_def)

lemma in_flight_result:
  assumes "adapter_inv s" "in_flight s h sid"
  shows "finished (handleResult s sid ok data err) h sid"
    and "settled (handleResult s sid ok data err) h =
          [if ok then Resolved data
           else Rejected (ActionFailed (if truthy err then the err else ''Action failed''))]"
  using assms(2) by (simp_all add: in_flight_def finished_def handleResult_def delete_conv')

lemma in_flight_timer:
  assumes "in_flight s h sid"
  shows "finished (timer_fires s h) h sid"
    and "\<exists>a ms. settled (timer_fires s h) h = [Rejected (TimedOut a ms)]"
proof -
  from assms obtain t where t: "timers s h = Some t" "t_step t = sid" "t_promise t = h"
    by (cases "timers s h") (simp_all add: in_flight_def)
  have e: "settled s h = []" using assms by (simp add: in_flight_def)
  show "finished (timer_fires s h) h sid"
    using t e by (simp add: finished_def timer_fires_def delete_conv')
  have "settled (timer_fires s h) h = [Rejected (TimedOut (t_action t) (t_ms t))]"
    using t e by (simp add: timer_fires_def)
  then show "\<exists>a ms. settled (timer_fires s h) h = [Rejected (TimedOut a ms)]" by blast
qed

lemma in_flight_disconnect:
  assumes "adapter_inv s" "issued s h = Some sid" "in_flight s h sid"
  shows "finished (disconnect s) h sid"
    and "settled (disconnect s) h = [Rejected ExecutorDisconnected]"
proof -
  have inv': "adapter_inv (disconnect s)" using assms(1) by (rule inv_disconnect)
  have "issued (disconnect s) h = Some sid"
    using assms(2) by (simp add: disconnect_def reject_all_frame)
  from inv_D(5)[OF inv' this] have d: "in_flight (disconnect s) h sid \<or> finished (disconnect s) h sid" .
  have "map_of (pendingRequests (disconnect s)) sid = None" by (simp add: disconnect_def)
  then have "\<not> in_flight (disconnect s) h sid" by (simp add: in_flight_def)
  with d show f: "finished (disconnect s) h sid" by simp
  have "\<exists>n. settled (disconnect s) h = settled s h @ replicate n (Rejected ExecutorDisconnected)"
    by (auto simp: disconnect_def reject_all_settled)
  then obtain n where "settled (disconnect s) h = replicate n (Rejected ExecutorDisconnected)"
    using assms(3) by (auto simp: in_flight_def)
  moreover have "length (settled (disconnect s) h) = 1" using f by (simp add: finished_def)
  ultimately show "settled (disconnect s) h = [Rejected ExecutorDisconnected]"
    by (cases n) auto
qed

text \<open>
  Claim C1. In every state \<open>s\<close> reached from a fresh adapter, a command dispatched by
  \<^verbatim>\<open>sendCommand\<close> (promise \<open>h\<close>, step id \<open>sid\<close>) is either in flight, with no continuation
  called yet, its entry in the map and its timer set, or finished, with exactly one
  continuation called and the entry and the timer gone: never two outcomes. While it is in
  flight each of the three terminal events (a matching \<^verbatim>\<open>handleResult\<close>, its timeout
  callback, \<^verbatim>\<open>disconnect\<close>) finishes it with that event's outcome and removes the entry in
  the same step, and the timer that is still set guarantees one of them happens: never
  zero. \<^verbatim>\<open>handleResult\<close> with the step id of a finished command, or with an id that was
  never issued, leaves the state as it is.
\<close>

theorem hybrid_command_settles_exactly_once:
  assumes "s = run evs"
  shows "(\<forall>h sid. issued s h = Some sid \<longrightarrow>
            (in_flight s h sid \<or> finished s h sid) \<and>
            (in_flight s h sid \<longrightarrow>
               finished (handleResult s sid ok data err) h sid \<and>
               settled (handleResult s sid ok data err) h =
                 [if ok then Resolved data
                  else Rejected (ActionFailed (if truthy err then the err else ''Action failed''))] \<and>
               finished (timer_fires s h) h sid \<and>
               (\<exists>a ms. settled (timer_fires s h) h = [Rejected (TimedOut a ms)]) \<and>
               finished (disconnect s) h sid \<and>
               settled (disconnect s) h = [Rejected ExecutorDisconnected]) \<and>
            (finished s h sid \<longrightarrow> handleResult s sid ok data err = s)) \<and>
         (\<forall>sid. (\<forall>h. issued s h \<noteq> Some sid) \<longrightarrow> handleResult s sid ok data err = s)"
proof (intro conjI allI impI)
  have inv: "adapter_inv s" using assms by (simp add: inv_run)
  note D = inv_D[OF inv]
  { fix h sid assume i: "issued s h = Some sid"
    show "in_flight s h sid \<or> finished s h sid" by (rule D(5)[OF i])
    { assume fl: "in_flight s h sid"
      show "finished (handleResult s sid ok data err) h sid"
        by (rule in_flight_result(1)[OF inv fl])
      show "settled (handleResult s sid ok data err) h =
                 [if ok then Resolved data
                  else Rejected (ActionFailed (if truthy err then the err else ''Action failed''))]"
        by (rule in_flight_result(2)[OF inv fl])
      show "finished (timer_fires s h) h sid" by (rule in_flight_timer(1)[OF fl])
      show "\<exists>a ms. settled (timer_fires s h) h = [Rejected (TimedOut a ms)]"
        by (rule in_flight_timer(2)[OF fl])
      show "finished (disconnect s) h sid" by (rule in_flight_disconnect(1)[OF inv i fl])
      show "settled (disconnect s) h = [Rejected ExecutorDisconnected]"
        by (rule in_flight_disconnect(2)[OF inv i fl])
    }
    { assume "finished s h sid"
      then show "handleResult s sid ok data err = s"
        by (simp add: finished_def handleResult_not_pending)
    }
  }
  { fix sid assume n: "\<forall>h. issued s h \<noteq> Some sid"
    have "map_of (pendingRequests s) sid = None"
    proof (cases "map_of (pendingRequests s) sid")
      case (Some req)
      from D(6)[OF this] n show ?thesis by simp
    qed simp
    then show "handleResult s sid ok data err = s" by (rule handleResult_not_pending)
  }
qed

lemma demo_eval:
  "issued (run demo_events) 0 = Some (StepId 1000 0)"
  "issued (run demo_events) 1 = Some (StepId 1000 1)"
  "settled (run demo_events) 0 = [Resolved None]"
  "in_flight (run demo_events) 1 (StepId 1000 1)"
  "\<forall>h. issued (run demo_events) h \<noteq> Some (ForeignId ''x'')"
  by (simp_all add: demo_events_def run_def new_adapter_def registerConnection_def
      sendCommand_def handleResult_def in_flight_def Let_def)

theorem hybrid_command_settles_exactly_once_witness:
  "issued (run demo_events) 0 = Some (StepId 1000 0) \<and>
   finished (run demo_events) 0 (StepId 1000 0) \<and>
   settled (run demo_events) 0 = [Resolved None] \<and>
   handleResult (run demo_events) (StepId 1000 0) True None None = run demo_events \<and>
   issued (run demo_events) 1 = Some (StepId 1000 1) \<and>
   in_flight (run demo_events) 1 (StepId 1000 1) \<and>
   finished (timer_fires (run demo_events) 1) 1 (StepId 1000 1) \<and>
   finished (disconnect (run demo_events)) 1 (StepId 1000 1) \<and>
   finished (handleResult (run demo_events) (StepId 1000 1) True None None) 1 (StepId 1000 1) \<and>
   handleResult (run demo_events) (ForeignId ''x'') True None None = run demo_events"
proof -
  note T = hybrid_command_settles_exactly_once[OF refl, of demo_events True None None]
  have a0: "in_flight (run demo_events) 0 (StepId 1000 0) \<or> finished (run demo_events) 0 (StepId 1000 0)"
    using T demo_eval(1) by blast
  have "\<not> in_flight (run demo_events) 0 (StepId 1000 0)"
    by (simp add: in_flight_def demo_eval(3))
  with a0 have f0: "finished (run demo_events) 0 (StepId 1000 0)" by simp
  show ?thesis using T demo_eval f0 by blast
qed

text \<open>
  Claim C3. With no transport attached, \<^verbatim>\<open>sendCommand\<close> and every operation that
  dispatches through it (\<^verbatim>\<open>getPage\<close> with a url, \<^verbatim>\<open>captureScreenshot\<close>,
  \<^verbatim>\<open>getSimplifiedDOM\<close>, \<^verbatim>\<open>executeAction\<close>) fails at once with the connectivity error and
  leaves the adapter unchanged: no pending entry, no timer, nothing to wait for.
\<close>

theorem no_transport_fails_immediately:
  assumes "activeStream s = None"
  shows "sendCommand s sessionId actionName args timeoutMs now = (Inl NotConnected, s) \<and>
         (truthy url \<longrightarrow> getPage_remote s sessionId url now = (Inl NotConnected, s)) \<and>
         captureScreenshot_remote s sessionId now = (Inl NotConnected, s) \<and>
         getSimplifiedDOM_remote s sessionId now = (Inl NotConnected, s) \<and>
         executeAction_remote s sessionId a now = (Inl NotConnected, s)"
  using assms
  by (simp add: sendCommand_def getPage_remote_def captureScreenshot_remote_def
      getSimplifiedDOM_remote_def executeAction_remote_def)

theorem no_transport_fails_immediately_witness:
  "activeStream new_adapter = None \<and>
   getPage_remote new_adapter ''s1'' (Some ''http://example.com'') 5 = (Inl NotConnected, new_adapter) \<and>
   executeAction_remote new_adapter ''s1''
     \<lparr> ba_action = ''click'', ba_x = Some 100, ba_y = Some 200, ba_text = None,
       ba_direction = None, ba_url = None \<rparr> 5 = (Inl NotConnected, new_adapter) \<and>
   pendingRequests (snd (captureScreenshot_remote new_adapter ''s1'' 5)) = [] \<and>
   timers (snd (getSimplifiedDOM_remote new_adapter ''s1'' 5)) 0 = None"
proof -
  have h: "activeStream new_adapter = None" by (simp add: new_adapter_def)
  have t: "truthy (Some ''http://example.com'')" by simp
  show ?thesis
    using no_transport_fails_immediately[OF h, of "''s1''" _ _ _ 5 "Some ''http://example.com''"] h t
    by (simp add: new_adapter_def)
qed

section \<open>Properties of the session/browser manager\<close>

lemma getPage_live:
  assumes "sessions s sessionId = Some se"
    and "headless se = resolveHeadlessMode w requestedHeadless"
    and "\<not> w_isClosed w (page se)"
    and "w_url w (page se) = Inr current"
  shows "sessions (snd (getPage w s sessionId url requestedHeadless)) =
           (sessions s)(sessionId \<mapsto> se\<lparr> lastActivity := w_now w \<rparr>) \<and>
         driver_log (snd (getPage w s sessionId url requestedHeadless)) =
           driver_log s @ (if truthy url \<and> the url \<noteq> current
                           then [Goto (page se) (the url)] else []) \<and>
         fst (getPage w s sessionId url requestedHeadless) =
           (if truthy url \<and> the url \<noteq> current
            then (case w_goto w (page se) (the url) of
                    None \<Rightarrow> Inr (page se) | Some msg \<Rightarrow> Inl (Thrown msg))
            else Inr (page se))"
  using assms
  by (simp add: getPage_def restart_on_mode_change_def discard_if_dead_def touch_def
      logged_def Let_def split: option.splits)

text \<open>
  Claim C7. When the session id holds a live handle (page not closed, its url readable)
  whose recorded headless mode is the effective mode of the request, \<^verbatim>\<open>getPage\<close> launches
  and closes nothing and keeps the one handle of that id, only refreshing its activity
  time. It navigates exactly when a url is given that differs from the page's current url,
  so a repeated call with the url the page is at returns the existing page and does
  nothing else.
\<close>

theorem getPage_reuses_live_handle:
  assumes "sessions s sessionId = Some se"
    and "headless se = resolveHeadlessMode w requestedHeadless"
    and "\<not> w_isClosed w (page se)"
    and "w_url w (page se) = Inr current"
  shows "sessions (snd (getPage w s sessionId url requestedHeadless)) =
           (sessions s)(sessionId \<mapsto> se\<lparr> lastActivity := w_now w \<rparr>) \<and>
         driver_log (snd (getPage w s sessionId url requestedHeadless)) =
           driver_log s @ (if truthy url \<and> the url \<noteq> current
                           then [Goto (page se) (the url)] else []) \<and>
         fst (getPage w s sessionId url requestedHeadless) =
           (if truthy url \<and> the url \<noteq> current
            then (case w_goto w (page se) (the url) of
                    None \<Rightarrow> Inr (page se) | Some msg \<Rightarrow> Inl (Thrown msg))
            else Inr (page se))"
  using assms by (rule getPage_live)

theorem getPage_reuses_live_handle_witness:
  "sessions demo_manager ''s1'' = Some demo_session \<and>
   headless demo_session = resolveHeadlessMode quiet_world True \<and>
   \<not> w_isClosed quiet_world (page demo_session) \<and>
   w_url quiet_world (page demo_session) = Inr ''https://example.com/'' \<and>
   getPage quiet_world demo_manager ''s1'' (Some ''https://example.com/'') True =
     (Inr 2, demo_manager\<lparr> sessions := [''s1'' \<mapsto> demo_session\<lparr> lastActivity := 42 \<rparr>] \<rparr>) \<and>
   driver_log (snd (getPage quiet_world demo_manager ''s1'' (Some ''https://example.org/'') True)) =
     [Goto 2 ''https://example.org/'']"
proof -
  have h: "sessions demo_manager ''s1'' = Some demo_session"
    "headless demo_session = resolveHeadlessMode quiet_world True"
    "\<not> w_isClosed quiet_world (page demo_session)"
    "w_url quiet_world (page demo_session) = Inr ''https://example.com/''"
    by (simp_all add: demo_manager_def demo_session_def quiet_world_def resolveHeadlessMode_def)
  note T = getPage_reuses_live_handle[OF h]
  have a: "getPage quiet_world demo_manager ''s1'' (Some ''https://example.com/'') True =
     (Inr 2, demo_manager\<lparr> sessions := [''s1'' \<mapsto> demo_session\<lparr> lastActivity := 42 \<rparr>] \<rparr>)"
    using T[of "Some ''https://example.com/''"]
    by (simp add: prod_eq_iff demo_manager_def demo_session_def quiet_world_def)
  have b: "driver_log (snd (getPage quiet_world demo_manager ''s1'' (Some ''https://example.org/'') True)) =
     [Goto 2 ''https://example.org/'']"
    using T[of "Some ''https://example.org/''"]
    by (simp add: demo_manager_def demo_session_def)
  show ?thesis using h a b by simp
qed

lemma launch_browser_log:
  "\<exists>rest. driver_log (snd (launch_browser w hl s)) = driver_log s @ Launch hl # rest"
  by (simp add: launch_browser_def logged_def Let_def split: sum.splits)

lemma launch_browser_sessions: "sessions (snd (launch_browser w hl s)) = sessions s"
  by (simp add: launch_browser_def logged_def Let_def split: sum.splits)

lemma first_page_sessions: "sessions (snd (first_page w b s)) = sessions s"
  by (simp add: first_page_def logged_def Let_def split: sum.splits list.splits option.splits)

lemma first_page_log: "\<exists>rest. driver_log (snd (first_page w b s)) = driver_log s @ rest"
  by (simp add: first_page_def logged_def Let_def split: sum.splits list.splits option.splits)

lemma launch_session_result:
  "launch_session w sessionId targetUrl hl s = (r, s') \<Longrightarrow>
     (\<exists>rest. driver_log s' = driver_log s @ Launch hl # rest) \<and>
     (case r of
        Inl e \<Rightarrow> sessions s' = sessions s
      | Inr p \<Rightarrow> (\<exists>b. sessions s' = (sessions s)(sessionId \<mapsto>
                      \<lparr> browser = b, page = p, consoleErrors = [], lastActivity = w_now w,
                        headless = hl \<rparr>)))"
proof -
  assume a: "launch_session w sessionId targetUrl hl s = (r, s')"
  obtain r1 s1 where l: "launch_browser w hl s = (r1, s1)" by (cases "launch_browser w hl s")
  from launch_browser_log[of w hl s] l obtain rest1 where
    g1: "driver_log s1 = driver_log s @ Launch hl # rest1" by auto
  have m1: "sessions s1 = sessions s" using launch_browser_sessions[of w hl s] l by simp
  show ?thesis
  proof (cases r1)
    case (Inl e)
    then show ?thesis using a l g1 m1 by (auto simp: launch_session_def)
  next
    case (Inr b)
    obtain r2 s2 where f: "first_page w b s1 = (r2, s2)" by (cases "first_page w b s1")
    from first_page_log[of w b s1] f obtain rest2 where
      g2: "driver_log s2 = driver_log s1 @ rest2" by auto
    have m2: "sessions s2 = sessions s1" using first_page_sessions[of w b s1] f by simp
    show ?thesis
    proof (cases r2)
      case (Inl e)
      then show ?thesis using a l Inr f g1 g2 m1 m2 by (auto simp: launch_session_def)
    next
      case (Inr p)
      then show ?thesis using a l \<open>r1 = Inr b\<close> f g1 g2 m1 m2
        by (auto simp: launch_session_def logged_def Let_def split: if_splits option.splits
            intro!: exI[of _ b])
    qed
  qed
qed

lemma getPage_without_session:
  assumes "sessions s sessionId = None"
  shows "getPage w s sessionId url hl =
           launch_session w sessionId (if truthy url then url else None)
             (resolveHeadlessMode w hl) s"
  using assms
  by (simp add: getPage_def restart_on_mode_change_def discard_if_dead_def Let_def)

text \<open>
  A successful \<^verbatim>\<open>getPage\<close> leaves the page it returns stored under the session id, so
  the same request made again, while that page is alive, reuses it.
\<close>

lemma getPage_stores_session:
  assumes "getPage w s sessionId url requestedHeadless = (Inr p, s')"
  shows "\<exists>se. sessions s' sessionId = Some se \<and> page se = p \<and>
              headless se = resolveHeadlessMode w requestedHeadless"
proof -
  let ?hl = "resolveHeadlessMode w requestedHeadless"
  obtain cap se1 s1 where r: "restart_on_mode_change w sessionId ?hl s = (cap, se1, s1)"
    by (cases "restart_on_mode_change w sessionId ?hl s") auto
  obtain se2 s2 where d: "discard_if_dead w sessionId se1 s1 = (se2, s2)"
    by (cases "discard_if_dead w sessionId se1 s1") auto
  show ?thesis
  proof (cases se2)
    case None
    then have "launch_session w sessionId (if truthy url then url else cap) ?hl s2 = (Inr p, s')"
      using assms r d by (simp add: getPage_def Let_def)
    from launch_session_result[OF this] show ?thesis by auto
  next
    case (Some se)
    then have e1: "se1 = Some se" using d
      by (auto simp: discard_if_dead_def split: option.splits if_splits)
    then have h: "headless se = ?hl" using r
      by (auto simp: restart_on_mode_change_def Let_def split: option.splits if_splits)
    have "sessions s' sessionId = Some (se\<lparr> lastActivity := w_now w \<rparr>) \<and> page se = p"
      using assms r d Some
      by (auto simp: getPage_def Let_def touch_def logged_def split: if_splits option.splits)
    then show ?thesis using h by simp
  qed
qed

lemma getPage_twice:
  assumes "getPage w1 s sessionId url requestedHeadless = (Inr p, s1)"
    and "w_no_display w2 = w_no_display w1"
    and "\<not> w_isClosed w2 p" and "w_url w2 p = Inr current"
  shows "driver_log (snd (getPage w2 s1 sessionId url requestedHeadless)) =
           driver_log s1 @ (if truthy url \<and> the url \<noteq> current then [Goto p (the url)] else []) \<and>
         (\<not> (truthy url \<and> the url \<noteq> current) \<longrightarrow>
            fst (getPage w2 s1 sessionId url requestedHeadless) = Inr p) \<and>
         (\<exists>se. sessions s1 sessionId = Some se \<and> page se = p \<and>
            sessions (snd (getPage w2 s1 sessionId url requestedHeadless)) =
              (sessions s1)(sessionId \<mapsto> se\<lparr> lastActivity := w_now w2 \<rparr>))"
proof -
  from getPage_stores_session[OF assms(1)] obtain se where
    se: "sessions s1 sessionId = Some se" "page se = p"
      "headless se = resolveHeadlessMode w1 requestedHeadless" by blast
  have m: "headless se = resolveHeadlessMode w2 requestedHeadless"
    using se(3) assms(2) by (simp add: resolveHeadlessMode_def)
  have c: "\<not> w_isClosed w2 (page se)" "w_url w2 (page se) = Inr current"
    using assms(3,4) se(2) by simp_all
  note L = getPage_live[OF se(1) m c, of url]
  show ?thesis using L se by auto
qed

text \<open>
  Claim C10. For a session id with no entry, \<^verbatim>\<open>executeAction\<close> with anything but a
  navigate that carries a url returns normally and changes nothing (no entry, no driver
  call). A navigate with a url first calls \<^verbatim>\<open>getPage\<close>, which launches a browser; if that
  fails the error is passed on and no entry is made, and if it succeeds the entry of the
  new session is in the map before the action runs on it.
\<close>

theorem executeAction_without_session:
  assumes "sessions s sessionId = None"
  shows "(\<not> (ba_action a = ''navigate'' \<and> truthy (ba_url a)) \<longrightarrow>
            executeAction w s sessionId a requestedHeadless = (Inr (), s)) \<and>
         (ba_action a = ''navigate'' \<and> truthy (ba_url a) \<longrightarrow>
            (\<exists>rest. driver_log (snd (getPage w s sessionId (ba_url a) requestedHeadless)) =
                      driver_log s @ Launch (resolveHeadlessMode w requestedHeadless) # rest) \<and>
            (case getPage w s sessionId (ba_url a) requestedHeadless of
               (Inl e, s1) \<Rightarrow>
                 sessions s1 = sessions s \<and>
                 executeAction w s sessionId a requestedHeadless = (Inl e, s1)
             | (Inr p, s1) \<Rightarrow>
                 sessions s1 = (sessions s)(sessionId := sessions s1 sessionId) \<and>
                 (case sessions s1 sessionId of
                    None \<Rightarrow> False
                  | Some se \<Rightarrow>
                      page se = p \<and>
                      executeAction w s sessionId a requestedHeadless =
                        act_on_session w sessionId se a s1)))"
proof (intro conjI impI)
  assume "\<not> (ba_action a = ''navigate'' \<and> truthy (ba_url a))"
  then show "executeAction w s sessionId a requestedHeadless = (Inr (), s)"
    using assms by (auto simp: executeAction_def)
next
  assume n: "ba_action a = ''navigate'' \<and> truthy (ba_url a)"
  obtain r s1 where g: "getPage w s sessionId (ba_url a) requestedHeadless = (r, s1)"
    by (cases "getPage w s sessionId (ba_url a) requestedHeadless")
  then have "launch_session w sessionId (ba_url a) (resolveHeadlessMode w requestedHeadless) s = (r, s1)"
    using getPage_without_session[OF assms, of w "ba_url a" requestedHeadless] n by simp
  note L = launch_session_result[OF this]
  show "\<exists>rest. driver_log (snd (getPage w s sessionId (ba_url a) requestedHeadless)) =
                      driver_log s @ Launch (resolveHeadlessMode w requestedHeadless) # rest"
    using L g by simp
  show "case getPage w s sessionId (ba_url a) requestedHeadless of
               (Inl e, s1) \<Rightarrow>
                 sessions s1 = sessions s \<and>
                 executeAction w s sessionId a requestedHeadless = (Inl e, s1)
             | (Inr p, s1) \<Rightarrow>
                 sessions s1 = (sessions s)(sessionId := sessions s1 sessionId) \<and>
                 (case sessions s1 sessionId of
                    None \<Rightarrow> False
                  | Some se \<Rightarrow>
                      page se = p \<and>
                      executeAction w s sessionId a requestedHeadless =
                        act_on_session w sessionId se a s1)"
  proof (cases r)
    case (Inl e)
    then show ?thesis using L g n assms by (simp add: executeAction_def)
  next
    case (Inr p)
    then obtain se where se: "sessions s1 = (sessions s)(sessionId \<mapsto> se)" "page se = p"
      using L by auto
    have "executeAction w s sessionId a requestedHeadless = act_on_session w sessionId se a s1"
      using Inr g n assms se by (simp add: executeAction_def)
    then show ?thesis using Inr g se by simp
  qed
qed

theorem executeAction_without_session_witness:
  "sessions new_manager ''s1'' = None \<and>
   executeAction quiet_world new_manager ''s1'' click_action True = (Inr (), new_manager) \<and>
   executeAction quiet_world new_manager ''s1''
     (navigate_action\<lparr> ba_url := None \<rparr>) True = (Inr (), new_manager) \<and>
   sessions (snd (executeAction quiet_world new_manager ''s1'' navigate_action True)) ''s1'' =
     Some \<lparr> browser = 1, page = 2, consoleErrors = [], lastActivity = 42, headless = True \<rparr> \<and>
   driver_log (snd (getPage quiet_world new_manager ''s1'' (ba_url navigate_action) True)) =
     [Launch True, BrowserPages 1, SetViewport 2, Goto 2 ''https://example.com/'']"
proof -
  have h: "sessions new_manager ''s1'' = None" by (simp add: new_manager_def)
  note T = executeAction_without_session[OF h, of _ quiet_world True]
  have a: "executeAction quiet_world new_manager ''s1'' click_action True = (Inr (), new_manager)"
    using T[of click_action] by (simp add: click_action_def)
  have b: "executeAction quiet_world new_manager ''s1''
     (navigate_action\<lparr> ba_url := None \<rparr>) True = (Inr (), new_manager)"
    using T[of "navigate_action\<lparr> ba_url := None \<rparr>"] by (simp add: navigate_action_def)
  have g: "getPage quiet_world new_manager ''s1'' (ba_url navigate_action) True =
     (Inr 2, \<lparr> sessions = [''s1'' \<mapsto> \<lparr> browser = 1, page = 2, consoleErrors = [],
          lastActivity = 42, headless = True \<rparr>],
        driver_log = [Launch True, BrowserPages 1, SetViewport 2, Goto 2 ''https://example.com/''] \<rparr>)"
    by (simp add: getPage_def restart_on_mode_change_def discard_if_dead_def launch_session_def
        launch_browser_def first_page_def logged_def new_manager_def navigate_action_def
        quiet_world_def resolveHeadlessMode_def Let_def)
  have c: "sessions (snd (executeAction quiet_world new_manager ''s1'' navigate_action True)) ''s1'' =
     Some \<lparr> browser = 1, page = 2, consoleErrors = [], lastActivity = 42, headless = True \<rparr>"
    using T[of navigate_action] g
    by (simp add: navigate_action_def act_on_session_def perform_def touch_def logged_def
        quiet_world_def new_manager_def Let_def)
  show ?thesis using h a b c g by simp
qed

text \<open>
  Claim C9 as stated fails. \<^verbatim>\<open>getConsoleErrors\<close> never looks at the handle: on a session
  whose page is closed it returns the buffered errors and keeps the entry. And
  \<^verbatim>\<open>captureScreenshot\<close> throws, keeping the entry, when its output directory cannot be made,
  closed page or not.
\<close>

theorem observation_primitives_counterexample:
  "sessions demo_manager ''s1'' = Some demo_session \<and>
   w_isClosed dead_world (page demo_session) \<and>
   fst (getConsoleErrors demo_manager ''s1'') = [''boom''] \<and>
   sessions (snd (getConsoleErrors demo_manager ''s1'')) ''s1'' =
     Some (demo_session\<lparr> consoleErrors := [] \<rparr>) \<and>
   fst (captureScreenshot dead_world demo_manager ''s1'' ''shots'' ''msg-1'') =
     Inl (Thrown ''EACCES'') \<and>
   sessions (snd (captureScreenshot dead_world demo_manager ''s1'' ''shots'' ''msg-1'')) ''s1'' =
     Some demo_session"
  by (simp add: demo_manager_def demo_session_def dead_world_def quiet_world_def
      getConsoleErrors_def captureScreenshot_def logged_def)

text \<open>
  Claim C9, amended. For a session id with an entry: \<^verbatim>\<open>getSimplifiedDOM\<close> on a closed page
  or a failing snapshot, and \<^verbatim>\<open>captureScreenshot\<close> on a closed page or a failing screenshot
  once its output directory exists or can be made, evict the entry and return the empty
  string and null, without throwing. \<^verbatim>\<open>getConsoleErrors\<close> does not inspect the handle and
  does not evict: it returns the buffered console errors and empties the buffer.
\<close>

theorem observation_primitives_on_dead_handle:
  assumes "sessions s sessionId = Some se"
  shows "(w_isClosed w (page se) \<or> isl (w_evaluate w (page se)) \<longrightarrow>
            fst (getSimplifiedDOM w s sessionId) = Inr [] \<and>
            sessions (snd (getSimplifiedDOM w s sessionId)) = (sessions s)(sessionId := None)) \<and>
         ((w_existsSync w outputDir \<or> w_mkdir w outputDir = None) \<and>
          (w_isClosed w (page se) \<or> isl (w_screenshot w (page se))) \<longrightarrow>
            fst (captureScreenshot w s sessionId outputDir stepLabel) = Inr None \<and>
            sessions (snd (captureScreenshot w s sessionId outputDir stepLabel)) =
              (sessions s)(sessionId := None)) \<and>
         getConsoleErrors s sessionId =
           (consoleErrors se,
            s\<lparr> sessions := (sessions s)(sessionId \<mapsto> se\<lparr> consoleErrors := [] \<rparr>) \<rparr>) \<and>
         (sessions s0 sessionId = None \<longrightarrow> getConsoleErrors s0 sessionId = ([], s0))"
proof (intro conjI impI)
  assume "w_isClosed w (page se) \<or> isl (w_evaluate w (page se))"
  then show "fst (getSimplifiedDOM w s sessionId) = Inr []"
    and "sessions (snd (getSimplifiedDOM w s sessionId)) = (sessions s)(sessionId := None)"
    using assms
    by (auto simp: getSimplifiedDOM_def evict_def logged_def split: sum.splits)
next
  assume a: "(w_existsSync w outputDir \<or> w_mkdir w outputDir = None) \<and>
          (w_isClosed w (page se) \<or> isl (w_screenshot w (page se)))"
  then show "fst (captureScreenshot w s sessionId outputDir stepLabel) = Inr None"
    using assms
    by (auto simp: captureScreenshot_def evict_def logged_def Let_def split: sum.splits)
  from a show "sessions (snd (captureScreenshot w s sessionId outputDir stepLabel)) =
              (sessions s)(sessionId := None)"
    using assms
    by (auto simp: captureScreenshot_def evict_def logged_def Let_def split: sum.splits)
next
  show "getConsoleErrors s sessionId =
           (consoleErrors se,
            s\<lparr> sessions := (sessions s)(sessionId \<mapsto> se\<lparr> consoleErrors := [] \<rparr>) \<rparr>)"
    using assms by (simp add: getConsoleErrors_def)
next
  assume "sessions s0 sessionId = None"
  then show "getConsoleErrors s0 sessionId = ([], s0)" by (simp add: getConsoleErrors_def)
qed

theorem observation_primitives_on_dead_handle_witness:
  "sessions demo_manager ''s1'' = Some demo_session \<and>
   w_isClosed closed_page_world (page demo_session) \<and>
   w_existsSync closed_page_world ''shots'' \<and>
   getSimplifiedDOM closed_page_world demo_manager ''s1'' = (Inr [], new_manager) \<and>
   captureScreenshot closed_page_world demo_manager ''s1'' ''shots'' ''msg-1'' =
     (Inr None, new_manager) \<and>
   fst (getConsoleErrors demo_manager ''s1'') = [''boom''] \<and>
   getConsoleErrors new_manager ''s1'' = ([], new_manager)"
proof -
  have h: "sessions demo_manager ''s1'' = Some demo_session" by (simp add: demo_manager_def)
  have c: "w_isClosed closed_page_world (page demo_session)"
    "w_existsSync closed_page_world ''shots''"
    by (simp_all add: closed_page_world_def quiet_world_def)
  note T = observation_primitives_on_dead_handle[OF h, of closed_page_world "''shots''" "''msg-1''"
      new_manager]
  have n: "sessions new_manager ''s1'' = None" by (simp add: new_manager_def)
  have l: "driver_log (snd (getSimplifiedDOM closed_page_world demo_manager ''s1'')) = []"
    "driver_log (snd (captureScreenshot closed_page_world demo_manager ''s1'' ''shots'' ''msg-1'')) = []"
    using h c by (simp_all add: getSimplifiedDOM_def captureScreenshot_def evict_def demo_manager_def)
  have e: "\<And>m. sessions m = Map.empty \<Longrightarrow> driver_log m = [] \<Longrightarrow> m = new_manager"
    by (simp add: new_manager_def)
  have a: "getSimplifiedDOM closed_page_world demo_manager ''s1'' = (Inr [], new_manager)"
    using T c l(1) by (intro prod_eqI) (auto intro!: e simp: demo_manager_def)
  have b: "captureScreenshot closed_page_world demo_manager ''s1'' ''shots'' ''msg-1'' =
     (Inr None, new_manager)"
    using T c l(2) by (intro prod_eqI) (auto intro!: e simp: demo_manager_def)
  show ?thesis using h c a b n T by (simp add: demo_session_def)
qed


section \<open>Properties of the normalization pass\<close>

lemma map_of_fix_type_secret:
  "map_of (fix_type_secret p) =
     (if map_of p ''action'' = Some (JStr ''type_secret'') \<and>
         \<not> js_truthy (map_of p ''key'') \<and> js_truthy (map_of p ''text'')
      then (map_of p)(''key'' := map_of p ''text'', ''text'' := None)
      else map_of p)"
  by (cases "map_of p ''text''") (auto simp: fix_type_secret_def update_conv' delete_conv')

lemma map_of_fill_reasoning:
  "map_of (fill_reasoning p) =
     (if js_truthy (map_of p ''action'') \<and> \<not> js_truthy (map_of p ''reasoning'')
      then (map_of p)(''reasoning'' \<mapsto> JStr REASONING_PLACEHOLDER)
      else map_of p)"
  by (simp add: fill_reasoning_def update_conv')

lemma map_of_fix_use_skill:
  "map_of (fix_use_skill p) =
     (if js_truthy (map_of p ''use_skill'') \<and> \<not> js_truthy (map_of p ''action'')
      then (map_of p)(''action'' \<mapsto> JStr ''use_skill'', ''skill_name'' := map_of p ''use_skill'',
                      ''use_skill'' := None)
      else map_of p)"
  by (cases "map_of p ''use_skill''") (auto simp: fix_use_skill_def update_conv' delete_conv')

text \<open>
  Claim C6 as stated fails. The payload \<^verbatim>\<open>{action:'type_secret', text:'FOO'}\<close> does not become
  \<^verbatim>\<open>{action:'type_secret', key:'FOO'}\<close>: the pass also fills in its reasoning. The tests of
  the pass are truthiness tests: a \<^verbatim>\<open>type_secret\<close> payload whose \<^verbatim>\<open>text\<close> is the empty string
  keeps it, and a payload whose \<^verbatim>\<open>action\<close> is the empty string gets no reasoning.
\<close>

theorem normalize_counterexample:
  "normalize secret_with_text =
     [(''action'', JStr ''type_secret''), (''key'', JStr ''FOO''),
      (''reasoning'', JStr ''Model omitted reasoning; auto-filled by parser.'')] \<and>
   map_of (normalize secret_with_text) ''reasoning'' \<noteq>
     map_of [(''action'', JStr ''type_secret''), (''key'', JStr ''FOO'')] ''reasoning'' \<and>
   normalize [(''action'', JStr ''type_secret''), (''text'', JStr '''')] =
     [(''action'', JStr ''type_secret''), (''text'', JStr ''''),
      (''reasoning'', JStr ''Model omitted reasoning; auto-filled by parser.'')] \<and>
   normalize [(''action'', JStr ''''), (''url'', JStr ''u'')] =
     [(''action'', JStr ''''), (''url'', JStr ''u'')]"
  by (simp add: normalize_def fix_type_secret_def fill_reasoning_def fix_use_skill_def
      secret_with_text_def REASONING_PLACEHOLDER_def)

text \<open>
  Claim C6, amended. The pass rewrites a \<^verbatim>\<open>type_secret\<close> payload with a truthy \<^verbatim>\<open>text\<close> and no
  truthy \<^verbatim>\<open>key\<close> to use \<^verbatim>\<open>key\<close> (deleting \<^verbatim>\<open>text\<close>); fills a missing or falsy reasoning
  with the placeholder on a payload whose \<^verbatim>\<open>action\<close> is truthy; and rewrites a payload with
  a truthy \<^verbatim>\<open>use_skill\<close> and no truthy \<^verbatim>\<open>action\<close> into a \<^verbatim>\<open>use_skill\<close> action of that skill
  name, leaving its reasoning as it was. The two named payloads become
  \<^verbatim>\<open>{action:'type_secret', key:'FOO', reasoning:<placeholder>}\<close> and
  \<^verbatim>\<open>{action:'use_skill', skill_name:'standard-login'}\<close>. The parser returns the validated
  action, and on a validation failure or a JSON syntax error a structured error action.
\<close>

theorem normalize_repairs:
  "(map_of p ''action'' = Some (JStr ''type_secret'') \<and>
      \<not> js_truthy (map_of p ''key'') \<and> js_truthy (map_of p ''text'') \<longrightarrow>
        map_of (normalize p) ''key'' = map_of p ''text'' \<and>
        map_of (normalize p) ''text'' = None \<and>
        map_of (normalize p) ''action'' = Some (JStr ''type_secret'')) \<and>
   (js_truthy (map_of p ''action'') \<and> \<not> js_truthy (map_of p ''reasoning'') \<longrightarrow>
        map_of (normalize p) ''reasoning'' = Some (JStr REASONING_PLACEHOLDER)) \<and>
   (js_truthy (map_of p ''use_skill'') \<and> \<not> js_truthy (map_of p ''action'') \<longrightarrow>
        map_of (normalize p) ''action'' = Some (JStr ''use_skill'') \<and>
        map_of (normalize p) ''skill_name'' = map_of p ''use_skill'' \<and>
        map_of (normalize p) ''use_skill'' = None \<and>
        map_of (normalize p) ''reasoning'' = map_of p ''reasoning'') \<and>
   normalize secret_with_text =
     [(''action'', JStr ''type_secret''), (''key'', JStr ''FOO''),
      (''reasoning'', JStr REASONING_PLACEHOLDER)] \<and>
   normalize bare_use_skill =
     [(''action'', JStr ''use_skill''), (''skill_name'', JStr ''standard-login'')] \<and>
   (\<forall>issues. ActionSchema_parse (JObj (normalize p)) = Inl issues \<longrightarrow>
      parseAction wording raw (Inr (JObj p)) =
        ErrorAction (''Failed to parse LLM response: Validation error: '' @
                     join_with '', '' (map (render_issue wording) issues) @
                     ''. Raw: '' @ take 200 raw)
          ''LLM returned invalid output'') \<and>
   (\<forall>a. ActionSchema_parse (JObj (normalize p)) = Inr a \<longrightarrow>
      parseAction wording raw (Inr (JObj p)) = a) \<and>
   parseAction wording raw (Inl msg) =
     ErrorAction (''Failed to parse LLM response: JSON Parse error: '' @ msg @
                  ''. Raw: '' @ take 200 raw) ''LLM returned invalid output''"
proof (intro conjI impI allI)
  assume a: "map_of p ''action'' = Some (JStr ''type_secret'') \<and>
      \<not> js_truthy (map_of p ''key'') \<and> js_truthy (map_of p ''text'')"
  then show "map_of (normalize p) ''key'' = map_of p ''text''"
    and "map_of (normalize p) ''text'' = None"
    and "map_of (normalize p) ''action'' = Some (JStr ''type_secret'')"
    by (simp_all add: normalize_def map_of_fix_use_skill map_of_fill_reasoning map_of_fix_type_secret)
next
  assume "js_truthy (map_of p ''action'') \<and> \<not> js_truthy (map_of p ''reasoning'')"
  then show "map_of (normalize p) ''reasoning'' = Some (JStr REASONING_PLACEHOLDER)"
    by (simp add: normalize_def map_of_fix_use_skill map_of_fill_reasoning map_of_fix_type_secret)
next
  assume a: "js_truthy (map_of p ''use_skill'') \<and> \<not> js_truthy (map_of p ''action'')"
  then have n: "map_of p ''action'' \<noteq> Some (JStr ''type_secret'')" by auto
  from a n show "map_of (normalize p) ''action'' = Some (JStr ''use_skill'')"
    and "map_of (normalize p) ''skill_name'' = map_of p ''use_skill''"
    and "map_of (normalize p) ''use_skill'' = None"
    and "map_of (normalize p) ''reasoning'' = map_of p ''reasoning''"
    by (simp_all add: normalize_def map_of_fix_use_skill map_of_fill_reasoning map_of_fix_type_secret)
next
  show "normalize secret_with_text =
     [(''action'', JStr ''type_secret''), (''key'', JStr ''FOO''),
      (''reasoning'', JStr REASONING_PLACEHOLDER)]"
    by (simp add: normalize_def fix_type_secret_def fill_reasoning_def fix_use_skill_def
      secret_with_text_def)
next
  show "normalize bare_use_skill =
     [(''action'', JStr ''use_skill''), (''skill_name'', JStr ''standard-login'')]"
    by (simp add: normalize_def fix_type_secret_def fill_reasoning_def fix_use_skill_def
      bare_use_skill_def)
next
  fix issues assume "ActionSchema_parse (JObj (normalize p)) = Inl issues"
  then show "parseAction wording raw (Inr (JObj p)) =
        ErrorAction (''Failed to parse LLM response: Validation error: '' @
                     join_with '', '' (map (render_issue wording) issues) @
                     ''. Raw: '' @ take 200 raw)
          ''LLM returned invalid output''"
    by (simp add: parseAction_def parse_failure_def)
next
  fix a assume "ActionSchema_parse (JObj (normalize p)) = Inr a"
  then show "parseAction wording raw (Inr (JObj p)) = a"
    by (simp add: parseAction_def)
next
  show "parseAction wording raw (Inl msg) =
     ErrorAction (''Failed to parse LLM response: JSON Parse error: '' @ msg @
                  ''. Raw: '' @ take 200 raw) ''LLM returned invalid output''"
    by (simp add: parseAction_def parse_failure_def)
qed

theorem normalize_repairs_witness:
  "map_of secret_with_text_at ''action'' = Some (JStr ''type_secret'') \<and>
   \<not> js_truthy (map_of secret_with_text_at ''key'') \<and>
   js_truthy (map_of secret_with_text_at ''text'') \<and>
   \<not> js_truthy (map_of secret_with_text_at ''reasoning'') \<and>
   map_of (normalize secret_with_text_at) ''key'' = Some (JStr ''FOO'') \<and>
   map_of (normalize secret_with_text_at) ''text'' = None \<and>
   map_of (normalize secret_with_text_at) ''reasoning'' = Some (JStr REASONING_PLACEHOLDER) \<and>
   parseAction (\<lambda>_. ''Required'') ''{}'' (Inr (JObj secret_with_text_at)) =
     TypeSecret ''FOO'' 10 20 REASONING_PLACEHOLDER \<and>
   js_truthy (map_of bare_use_skill ''use_skill'') \<and>
   \<not> js_truthy (map_of bare_use_skill ''action'') \<and>
   map_of (normalize bare_use_skill) ''skill_name'' = Some (JStr ''standard-login'') \<and>
   ActionSchema_parse (JObj (normalize bare_use_skill)) = Inl [Issue [''reasoning''] Required] \<and>
   parseAction (\<lambda>_. ''Required'') ''{}'' (Inr (JObj bare_use_skill)) =
     ErrorAction ''Failed to parse LLM response: Validation error: reasoning: Required. Raw: {}''
       ''LLM returned invalid output''"
proof -
  have h: "map_of secret_with_text_at ''action'' = Some (JStr ''type_secret'')"
    "\<not> js_truthy (map_of secret_with_text_at ''key'')"
    "js_truthy (map_of secret_with_text_at ''text'')"
    "\<not> js_truthy (map_of secret_with_text_at ''reasoning'')"
    "js_truthy (map_of secret_with_text_at ''action'')"
    "map_of secret_with_text_at ''text'' = Some (JStr ''FOO'')"
    "map_of secret_with_text_at ''x'' = Some (JNum 10)"
    "map_of secret_with_text_at ''y'' = Some (JNum 20)"
    by (simp_all add: secret_with_text_at_def)
  have g: "js_truthy (map_of bare_use_skill ''use_skill'')"
    "\<not> js_truthy (map_of bare_use_skill ''action'')"
    "map_of bare_use_skill ''use_skill'' = Some (JStr ''standard-login'')"
    by (simp_all add: bare_use_skill_def)
  note T1 = normalize_repairs[of secret_with_text_at "\<lambda>_. ''Required''" "''{}''"]
  note T2 = normalize_repairs[of bare_use_skill "\<lambda>_. ''Required''" "''{}''"]
  have v1: "ActionSchema_parse (JObj (normalize secret_with_text_at)) =
      Inr (TypeSecret ''FOO'' 10 20 REASONING_PLACEHOLDER)"
    by (simp add: normalize_def fix_type_secret_def fill_reasoning_def fix_use_skill_def
        secret_with_text_at_def ActionSchema_parse_def checked_def string_issues_def
        number_issues_def str_of_def num_of_def Let_def)
  have v2: "ActionSchema_parse (JObj (normalize bare_use_skill)) = Inl [Issue [''reasoning''] Required]"
    by (simp add: normalize_def fix_type_secret_def fill_reasoning_def fix_use_skill_def
        bare_use_skill_def ActionSchema_parse_def checked_def string_issues_def
        str_of_def Let_def)
  have p1: "parseAction (\<lambda>_. ''Required'') ''{}'' (Inr (JObj secret_with_text_at)) =
     TypeSecret ''FOO'' 10 20 REASONING_PLACEHOLDER"
    using T1 v1 by blast
  have p2: "parseAction (\<lambda>_. ''Required'') ''{}'' (Inr (JObj bare_use_skill)) =
     ErrorAction ''Failed to parse LLM response: Validation error: reasoning: Required. Raw: {}''
       ''LLM returned invalid output''"
    using T2 v2 by (simp add: render_issue_def)
  show ?thesis using T1 T2 h g v2 p1 p2 by simp
qed


section \<open>Properties of the agent action loop\<close>

lemma agent_loop_Break:
  "actionCount st < MAX_ACTIONS \<Longrightarrow> iteration env st = (Break x, st') \<Longrightarrow>
     agent_loop env st = (x, st')"
  by (subst agent_loop.simps) simp

lemma agent_loop_Continue:
  "actionCount st < MAX_ACTIONS \<Longrightarrow> iteration env st = (Continue, st') \<Longrightarrow>
     agent_loop env st = agent_loop env st'"
  by (subst agent_loop.simps) simp

lemma agent_loop_exhausted:
  "\<not> actionCount st < MAX_ACTIONS \<Longrightarrow> agent_loop env st = (BudgetExhausted, st)"
  by (subst agent_loop.simps) simp

lemma use_skill_quiet:
  assumes "\<And>i n. \<exists>v. e_executeSkillValidation env i n = Inr v \<and> valid v"
  shows "fst (use_skill env i name st) = Continue"
proof -
  from assms obtain v where "e_executeSkillValidation env i name = Inr v" "valid v" by blast
  then show ?thesis by (simp add: use_skill_def Let_def)
qed

lemma execute_quiet:
  assumes "\<And>i ba hl. e_executeAction env i ba hl = None"
  shows "fst (execute env i a label ba st) = Continue"
  using assms by (simp add: execute_def Let_def)

lemma act_quiet:
  assumes "\<And>i ba hl. e_executeAction env i ba hl = None"
  shows "fst (act env i a st) = Continue"
  by (cases a) (simp_all add: act_def Let_def execute_quiet[OF assms] split: option.splits)

lemma handle_action_quiet:
  assumes "\<And>i n. \<exists>v. e_executeSkillValidation env i n = Inr v \<and> valid v"
    and "\<And>i ba hl. e_executeAction env i ba hl = None"
    and "\<not> is_terminal a"
  shows "fst (handle_action env i a st) = Continue"
  using assms(3)
  by (cases a) (simp_all add: handle_action_def use_skill_quiet[OF assms(1)] act_quiet[OF assms(2)])

lemma iteration_quiet:
  assumes stop: "\<And>i. e_stopped_before env i = Inr False" "\<And>i. e_stopped_after env i = Inr False"
    and reason: "\<And>i h s d c k. \<exists>a. e_reason env i h s d c k = Inr a \<and> \<not> is_terminal a"
    and tripwire: "\<And>i n. \<exists>v. e_executeSkillValidation env i n = Inr v \<and> valid v"
    and nothrow: "\<And>i. \<not> isl (e_captureScreenshot env i)" "\<And>i. \<not> isl (e_getSimplifiedDOM env i)"
      "\<And>i ba hl. e_executeAction env i ba hl = None"
  shows "fst (iteration env st) = Continue"
proof -
  obtain shot where s: "e_captureScreenshot env (iterations st) = Inr shot"
    using nothrow(1)[of "iterations st"] by (cases "e_captureScreenshot env (iterations st)") auto
  obtain snapshot where d: "e_getSimplifiedDOM env (iterations st) = Inr snapshot"
    using nothrow(2)[of "iterations st"] by (cases "e_getSimplifiedDOM env (iterations st)") auto
  note H = handle_action_quiet[OF tripwire nothrow(3)]
  show ?thesis
  proof (cases "e_screenshots_disabled env")
    case True
    obtain a where a: "e_reason env (iterations st) (chatHistory st) [] snapshot
        (e_getConsoleErrors env (iterations st)) (activeSkillContext st) = Inr a" "\<not> is_terminal a"
      using reason by blast
    show ?thesis using True d a stop H[OF a(2)]
      by (simp add: iteration_def Let_def)
  next
    case False
    obtain a where a: "e_reason env (iterations st) (chatHistory st)
        (case shot of Some sh \<Rightarrow> fst sh | None \<Rightarrow> []) snapshot
        (e_getConsoleErrors env (iterations st)) (activeSkillContext st) = Inr a" "\<not> is_terminal a"
      using reason by blast
    show ?thesis using False s d a stop H[OF a(2)]
      by (cases shot) (simp_all add: iteration_def Let_def)
  qed
qed

lemma agent_loop_runs_out:
  assumes q: "\<And>st. fst (iteration env st) = Continue"
  shows "actionCount st \<le> MAX_ACTIONS \<Longrightarrow>
     fst (agent_loop env st) = BudgetExhausted \<and>
     actionCount (snd (agent_loop env st)) = MAX_ACTIONS \<and>
     iterations (snd (agent_loop env st)) = iterations st + (MAX_ACTIONS - actionCount st)"
proof (induction "MAX_ACTIONS - actionCount st" arbitrary: st)
  case 0
  then have "\<not> actionCount st < MAX_ACTIONS" by simp
  then show ?case using 0 by (simp add: agent_loop_exhausted)
next
  case (Suc n)
  then have lt: "actionCount st < MAX_ACTIONS" by simp
  obtain st' where it: "iteration env st = (Continue, st')"
    using q[of st] by (cases "iteration env st") auto
  note c = iteration_Continue[OF it]
  have "n = MAX_ACTIONS - actionCount st'" using Suc(2) c by simp
  moreover have "actionCount st' \<le> MAX_ACTIONS" using lt c by simp
  ultimately have "fst (agent_loop env st') = BudgetExhausted \<and>
     actionCount (snd (agent_loop env st')) = MAX_ACTIONS \<and>
     iterations (snd (agent_loop env st')) = iterations st' + (MAX_ACTIONS - actionCount st')"
    by (rule Suc(1))
  then show ?case using agent_loop_Continue[OF lt it] c lt by simp
qed

text \<open>
  Claim C2 as stated fails. With a reasoning step that always scrolls, no stop signal and no
  tripwire, but no executor attached to the hybrid adapter, the first observation throws
  and the loop is left through the handler's \<^verbatim>\<open>catch\<close> in its first iteration, with no action
  counted.
\<close>

theorem budget_counterexample:
  "e_reason offline_env 0 [] [] [] [] None = Inr (Scroll ''down'' ''more'') \<and>
   e_stopped_before offline_env 0 = Inr False \<and>
   e_captureScreenshot offline_env 0 = Inl NotConnected \<and>
   agent_loop offline_env (start []) =
     (Exception NotConnected, (start [])\<lparr> calls := [CaptureScreenshot], iterations := 1 \<rparr>) \<and>
   actionCount (snd (agent_loop offline_env (start []))) = 0 \<and>
   iterations (snd (agent_loop offline_env (start []))) = 1"
proof -
  have i: "iteration offline_env (start []) =
      (Break (Exception NotConnected), (start [])\<lparr> calls := [CaptureScreenshot], iterations := 1 \<rparr>)"
    by (simp add: iteration_def offline_env_def scrolling_env_def start_def called_def Let_def)
  have lt: "actionCount (start []) < MAX_ACTIONS" by (simp add: start_def MAX_ACTIONS_def)
  show ?thesis using agent_loop_Break[OF lt i]
    by (simp add: offline_env_def scrolling_env_def start_def)
qed

text \<open>
  Claim C2, amended. If the reasoning step never returns a terminal action, no skill
  validation fails, no stop signal is set, and no collaborator call throws (observation,
  reasoning, skill validation, \<^verbatim>\<open>executeAction\<close>), then the loop runs exactly
  \<open>MAX_ACTIONS = 8\<close> iterations, each counting one action whatever the action is, and ends
  with the budget exhausted.
\<close>

theorem budget_exhausted_after_max_actions:
  assumes "\<And>i. e_stopped_before env i = Inr False" "\<And>i. e_stopped_after env i = Inr False"
    and "\<And>i h s d c k. \<exists>a. e_reason env i h s d c k = Inr a \<and> \<not> is_terminal a"
    and "\<And>i n. \<exists>v. e_executeSkillValidation env i n = Inr v \<and> valid v"
    and "\<And>i. \<not> isl (e_captureScreenshot env i)" "\<And>i. \<not> isl (e_getSimplifiedDOM env i)"
      "\<And>i ba hl. e_executeAction env i ba hl = None"
    and "actionCount st = 0" "iterations st = 0"
  shows "fst (agent_loop env st) = BudgetExhausted \<and>
         iterations (snd (agent_loop env st)) = 8 \<and>
         actionCount (snd (agent_loop env st)) = 8 \<and>
         MAX_ACTIONS = 8 \<and>
         (\<forall>st1. \<exists>st2. iteration env st1 = (Continue, st2) \<and>
                      actionCount st2 = actionCount st1 + 1 \<and>
                      iterations st2 = iterations st1 + 1)"
proof -
  have q: "\<And>st. fst (iteration env st) = Continue"
    by (rule iteration_quiet[OF assms(1-7)])
  have "actionCount st \<le> MAX_ACTIONS" using assms(8) by simp
  from agent_loop_runs_out[OF q this] assms(8,9)
  have a: "fst (agent_loop env st) = BudgetExhausted"
    "iterations (snd (agent_loop env st)) = 8" "actionCount (snd (agent_loop env st)) = 8"
    by (simp_all add: MAX_ACTIONS_def)
  have b: "\<exists>st2. iteration env st1 = (Continue, st2) \<and>
                      actionCount st2 = actionCount st1 + 1 \<and>
                      iterations st2 = iterations st1 + 1" for st1
  proof -
    obtain st2 where it: "iteration env st1 = (Continue, st2)"
      using q[of st1] by (cases "iteration env st1") auto
    from iteration_Continue[OF it] it show ?thesis by blast
  qed
  show ?thesis using a b by (simp add: MAX_ACTIONS_def)
qed

theorem budget_exhausted_after_max_actions_witness:
  "e_stopped_before skill_env 3 = Inr False \<and>
   e_reason skill_env 3 [] [] [] [] None = Inr (UseSkill ''standard-login'' ''log in'') \<and>
   actionCount (start []) = 0 \<and>
   fst (agent_loop skill_env (start [])) = BudgetExhausted \<and>
   iterations (snd (agent_loop skill_env (start []))) = 8 \<and>
   actionCount (snd (agent_loop skill_env (start []))) = 8 \<and>
   fst (agent_loop scrolling_env (start [])) = BudgetExhausted \<and>
   iterations (snd (agent_loop scrolling_env (start []))) = 8"
proof -
  have s: "actionCount (start []) = 0" "iterations (start []) = 0" by (simp_all add: start_def)
  have 1: "fst (agent_loop skill_env (start [])) = BudgetExhausted \<and>
   iterations (snd (agent_loop skill_env (start []))) = 8 \<and>
   actionCount (snd (agent_loop skill_env (start []))) = 8"
    using budget_exhausted_after_max_actions[of skill_env "start []", OF _ _ _ _ _ _ _ s]
    by (simp add: skill_env_def scrolling_env_def)
  have 2: "fst (agent_loop scrolling_env (start [])) = BudgetExhausted \<and>
   iterations (snd (agent_loop scrolling_env (start []))) = 8"
    using budget_exhausted_after_max_actions[of scrolling_env "start []", OF _ _ _ _ _ _ _ s]
    by (simp add: scrolling_env_def)
  show ?thesis using 1 2 s by (simp add: skill_env_def scrolling_env_def)
qed

text \<open>
  Claim C4. When the skill named by a \<^verbatim>\<open>use_skill\<close> action is already the active one, the
  loop sends a warning, appends the corrective system note to the chat history, counts one
  action and goes on to the next iteration. It calls no collaborator (the instructions are
  not loaded again, the validation is not run again) and the active skill and its
  instructions stay as they were.
\<close>

theorem repeated_use_skill_is_a_note:
  assumes "activeSkillName st = Some name"
  shows "handle_action env i (UseSkill name r) st =
           (Continue,
            st\<lparr> actionCount := actionCount st + 1,
                chatHistory := chatHistory st @
                  [\<lparr> role = System, content = ALREADY_ACTIVE_NOTE name, isSkillContext = False \<rparr>],
                events := events st @
                  [(Thought, WARNING_SIGN @ '' Skill '' @ APOS @ name @ APOS @
                             '' is already active. Preventing loop.'')] \<rparr>) \<and>
         calls (snd (handle_action env i (UseSkill name r) st)) = calls st \<and>
         activeSkillName (snd (handle_action env i (UseSkill name r) st)) = activeSkillName st \<and>
         activeSkillContext (snd (handle_action env i (UseSkill name r) st)) =
           activeSkillContext st \<and>
         (actionCount st < MAX_ACTIONS \<and> iteration env st0 = handle_action env i (UseSkill name r) st
            \<and> actionCount st0 = actionCount st \<longrightarrow>
          agent_loop env st0 = agent_loop env (snd (handle_action env i (UseSkill name r) st)))"
proof -
  have e: "handle_action env i (UseSkill name r) st =
           (Continue,
            st\<lparr> actionCount := actionCount st + 1,
                chatHistory := chatHistory st @
                  [\<lparr> role = System, content = ALREADY_ACTIVE_NOTE name, isSkillContext = False \<rparr>],
                events := events st @
                  [(Thought, WARNING_SIGN @ '' Skill '' @ APOS @ name @ APOS @
                             '' is already active. Preventing loop.'')] \<rparr>)"
    using assms
    by (simp add: handle_action_def use_skill_def count_action_def push_def send_def)
  have l: "agent_loop env st0 = agent_loop env (snd (handle_action env i (UseSkill name r) st))"
    if "actionCount st < MAX_ACTIONS \<and> iteration env st0 = handle_action env i (UseSkill name r) st
        \<and> actionCount st0 = actionCount st"
  proof -
    from that have "iteration env st0 = (Continue, snd (handle_action env i (UseSkill name r) st))"
      "actionCount st0 < MAX_ACTIONS" using e by simp_all
    then show ?thesis using agent_loop_Continue by blast
  qed
  show ?thesis using e l by simp
qed

theorem repeated_use_skill_is_a_note_witness:
  "activeSkillName skilled_state = Some ''standard-login'' \<and>
   fst (handle_action skill_env 1 (UseSkill ''standard-login'' ''log in'') skilled_state) = Continue \<and>
   calls (snd (handle_action skill_env 1 (UseSkill ''standard-login'' ''log in'') skilled_state)) = [] \<and>
   actionCount (snd (handle_action skill_env 1 (UseSkill ''standard-login'' ''log in'') skilled_state)) = 1 \<and>
   activeSkillName (snd (iteration skill_env (start []))) = Some ''standard-login'' \<and>
   calls (snd (iteration skill_env (start []))) =
     [CaptureScreenshot, GetSimplifiedDOM, GetConsoleErrors, Reason,
      LoadSkillInstructions ''standard-login'', ExecuteSkillValidation ''standard-login''] \<and>
   calls (snd (iteration skill_env (snd (iteration skill_env (start []))))) =
     [CaptureScreenshot, GetSimplifiedDOM, GetConsoleErrors, Reason,
      LoadSkillInstructions ''standard-login'', ExecuteSkillValidation ''standard-login'',
      CaptureScreenshot, GetSimplifiedDOM, GetConsoleErrors, Reason]"
proof -
  have h: "activeSkillName skilled_state = Some ''standard-login''"
    by (simp add: skilled_state_def)
  note T = repeated_use_skill_is_a_note[OF h, where env = skill_env and i = 1 and r = "''log in''"]
  have c: "calls skilled_state = []" "actionCount skilled_state = 0"
    by (simp_all add: skilled_state_def start_def)
  have i1: "iteration skill_env (start []) =
     (Continue, \<lparr> actionCount = 1,
        agentFullText = ''log in'' @ NL @ BOOKS @ '' Loaded skill: standard-login'',
        activeSkillContext = Some ''1. Open the login form'',
        activeSkillName = Some ''standard-login'',
        chatHistory = [\<lparr> role = System,
           content = ''[Skill: standard-login] 1. Open the login form'', isSkillContext = True \<rparr>],
        events = [(Thought, ''log in''), (Thought, BOOKS @ '' Loaded skill: standard-login'')],
        calls = [CaptureScreenshot, GetSimplifiedDOM, GetConsoleErrors, Reason,
                 LoadSkillInstructions ''standard-login'', ExecuteSkillValidation ''standard-login''],
        iterations = 1 \<rparr>)"
    by (simp add: iteration_def handle_action_def use_skill_def skill_env_def scrolling_env_def
        start_def called_def send_def say_def push_def count_action_def Let_def)
  have i2: "calls (snd (iteration skill_env (snd (iteration skill_env (start []))))) =
     [CaptureScreenshot, GetSimplifiedDOM, GetConsoleErrors, Reason,
      LoadSkillInstructions ''standard-login'', ExecuteSkillValidation ''standard-login'',
      CaptureScreenshot, GetSimplifiedDOM, GetConsoleErrors, Reason]"
    unfolding i1
    by (simp add: iteration_def handle_action_def use_skill_def skill_env_def scrolling_env_def
        called_def send_def say_def push_def count_action_def Let_def)
  show ?thesis using T h c i1 i2 by simp
qed

text \<open>
  Claim C5. When a \<^verbatim>\<open>use_skill\<close> action names a skill that is not active, whose instructions
  load and whose validation returns invalid, the loop ends in the tripwire error, reported
  in an error event whose text carries the validation's reason when it gave one. The only
  calls made are the load and the validation: no action goes to the adapter, then or after
  the loop, the skill is not made active, and nothing is added to the chat history.
\<close>

theorem tripwire_failure_stops_before_acting:
  assumes "activeSkillName st \<noteq> Some name"
    and "e_loadSkillInstructions env i name = Some instructions" "instructions \<noteq> []"
    and "e_executeSkillValidation env i name = Inr v" "\<not> valid v"
  shows "handle_action env i (UseSkill name r) st =
           (Break TripwireFailed,
            st\<lparr> agentFullText := agentFullText st @ NL @ CROSS_MARK @ '' '' @ tripwire_message name v,
                events := events st @ [(ErrorEvent, tripwire_message name v)],
                calls := calls st @ [LoadSkillInstructions name, ExecuteSkillValidation name] \<rparr>) \<and>
         (truthy (v_error v) \<longrightarrow>
            tripwire_message name v =
              ''Skill '' @ APOS @ name @ APOS @ '' requires configuration: '' @ the (v_error v) @
              ''. Please fix this to use the skill.'') \<and>
         activeSkillName (snd (handle_action env i (UseSkill name r) st)) = activeSkillName st \<and>
         activeSkillContext (snd (handle_action env i (UseSkill name r) st)) =
           activeSkillContext st \<and>
         chatHistory (snd (handle_action env i (UseSkill name r) st)) = chatHistory st \<and>
         filter is_browser_action (calls (snd (handle_action env i (UseSkill name r) st))) =
           filter is_browser_action (calls st) \<and>
         filter is_browser_action
             (calls (snd (finish env (TripwireFailed, snd (handle_action env i (UseSkill name r) st))))) =
           filter is_browser_action (calls st) \<and>
         (actionCount st0 < MAX_ACTIONS \<and>
          iteration env st0 = handle_action env i (UseSkill name r) st \<longrightarrow>
            agent_loop env st0 = (TripwireFailed, snd (handle_action env i (UseSkill name r) st)))"
proof -
  have e: "handle_action env i (UseSkill name r) st =
           (Break TripwireFailed,
            st\<lparr> agentFullText := agentFullText st @ NL @ CROSS_MARK @ '' '' @ tripwire_message name v,
                events := events st @ [(ErrorEvent, tripwire_message name v)],
                calls := calls st @ [LoadSkillInstructions name, ExecuteSkillValidation name] \<rparr>)"
    using assms
    by (simp add: handle_action_def use_skill_def called_def say_def send_def Let_def)
  have f: "filter is_browser_action
             (calls (snd (finish env (TripwireFailed, snd (handle_action env i (UseSkill name r) st))))) =
           filter is_browser_action (calls st)"
    unfolding e by (simp add: finish_def split: sum.splits option.splits)
  have l: "agent_loop env st0 = (TripwireFailed, snd (handle_action env i (UseSkill name r) st))"
    if "actionCount st0 < MAX_ACTIONS \<and>
          iteration env st0 = handle_action env i (UseSkill name r) st"
  proof -
    from that have "iteration env st0 =
        (Break TripwireFailed, snd (handle_action env i (UseSkill name r) st))"
      using e by simp
    with that show ?thesis using agent_loop_Break by blast
  qed
  show ?thesis using e f l by (simp add: tripwire_message_def)
qed

theorem tripwire_failure_stops_before_acting_witness:
  "activeSkillName (start []) \<noteq> Some ''standard-login'' \<and>
   e_loadSkillInstructions tripwire_env 0 ''standard-login'' = Some ''1. Open the login form'' \<and>
   e_executeSkillValidation tripwire_env 0 ''standard-login'' =
     Inr \<lparr> valid = False, v_error = Some ''DATABASE_URL is missing.'' \<rparr> \<and>
   fst (handle_action tripwire_env 0 (UseSkill ''standard-login'' ''log in'') (start [])) =
     Break TripwireFailed \<and>
   events (snd (handle_action tripwire_env 0 (UseSkill ''standard-login'' ''log in'') (start []))) =
     [(ErrorEvent, ''Skill '' @ APOS @ ''standard-login'' @ APOS @
        '' requires configuration: DATABASE_URL is missing.. Please fix this to use the skill.'')] \<and>
   activeSkillName
     (snd (handle_action tripwire_env 0 (UseSkill ''standard-login'' ''log in'') (start []))) = None \<and>
   chatHistory
     (snd (handle_action tripwire_env 0 (UseSkill ''standard-login'' ''log in'') (start []))) = [] \<and>
   fst (agent_loop tripwire_env (start [])) = TripwireFailed \<and>
   filter is_browser_action (calls (snd (finish tripwire_env (agent_loop tripwire_env (start []))))) = []"
proof -
  have h: "activeSkillName (start []) \<noteq> Some ''standard-login''"
    "e_loadSkillInstructions tripwire_env 0 ''standard-login'' = Some ''1. Open the login form''"
    "''1. Open the login form'' \<noteq> []"
    "e_executeSkillValidation tripwire_env 0 ''standard-login'' =
       Inr \<lparr> valid = False, v_error = Some ''DATABASE_URL is missing.'' \<rparr>"
    "\<not> valid \<lparr> valid = False, v_error = Some ''DATABASE_URL is missing.'' \<rparr>"
    by (simp_all add: start_def tripwire_env_def skill_env_def scrolling_env_def)
  define st5 where "st5 = say ''log in'' (send Thought ''log in''
      (called Reason (called GetConsoleErrors (called GetSimplifiedDOM (called CaptureScreenshot
        ((start [])\<lparr> iterations := 1 \<rparr>))))))"
  have h5: "activeSkillName st5 \<noteq> Some ''standard-login''" "calls st5 =
      [CaptureScreenshot, GetSimplifiedDOM, GetConsoleErrors, Reason]"
    by (simp_all add: st5_def start_def)
  have it: "iteration tripwire_env (start []) =
      handle_action tripwire_env 0 (UseSkill ''standard-login'' ''log in'') st5"
    by (simp add: iteration_def st5_def tripwire_env_def skill_env_def scrolling_env_def
        start_def Let_def)
  have lt: "actionCount (start []) < MAX_ACTIONS" by (simp add: start_def MAX_ACTIONS_def)
  note T0 = tripwire_failure_stops_before_acting[OF h, where r = "''log in''"]
  note T5 = tripwire_failure_stops_before_acting[OF h5(1) h(2-5), where r = "''log in''"
      and ?st0.0 = "start []"]
  have "actionCount (start []) < MAX_ACTIONS \<and>
          iteration tripwire_env (start []) =
            handle_action tripwire_env 0 (UseSkill ''standard-login'' ''log in'') st5 \<longrightarrow>
        agent_loop tripwire_env (start []) =
          (TripwireFailed,
           snd (handle_action tripwire_env 0 (UseSkill ''standard-login'' ''log in'') st5))"
    by (rule T5[THEN conjunct2, THEN conjunct2, THEN conjunct2, THEN conjunct2, THEN conjunct2,
          THEN conjunct2, THEN conjunct2])
  then have a: "agent_loop tripwire_env (start []) =
      (TripwireFailed, snd (handle_action tripwire_env 0 (UseSkill ''standard-login'' ''log in'') st5))"
    using lt it by (rule_tac mp) simp_all
  have b: "filter is_browser_action
      (calls (snd (finish tripwire_env (agent_loop tripwire_env (start []))))) = []"
    unfolding a
    using T5[THEN conjunct2, THEN conjunct2, THEN conjunct2, THEN conjunct2, THEN conjunct2,
          THEN conjunct2, THEN conjunct1]
    by (simp only: h5(2) snd_conv filter.simps is_browser_action.simps if_False)
  show ?thesis using T0 h a b
    by (simp add: start_def tripwire_message_def)
qed

text \<open>
  Claim C8 as stated fails: \<^verbatim>\<open>ask_human\<close> and \<^verbatim>\<open>error\<close> leave the loop with the active skill
  and its instructions still set.
\<close>

theorem terminal_actions_counterexample:
  "activeSkillName skilled_state = Some ''standard-login'' \<and>
   fst (handle_action scrolling_env 0 (AskHuman ''Which account?'' ''unsure'') skilled_state) =
     Break AskHumanExit \<and>
   activeSkillName
     (snd (handle_action scrolling_env 0 (AskHuman ''Which account?'' ''unsure'') skilled_state)) =
     Some ''standard-login'' \<and>
   activeSkillContext
     (snd (handle_action scrolling_env 0 (AskHuman ''Which account?'' ''unsure'') skilled_state)) =
     Some ''1. Open the login form'' \<and>
   fst (handle_action scrolling_env 0 (ErrorAction ''form missing'' ''gave up'') skilled_state) =
     Break AgentErrorExit \<and>
   activeSkillName
     (snd (handle_action scrolling_env 0 (ErrorAction ''form missing'' ''gave up'') skilled_state)) =
     Some ''standard-login''"
  by (simp add: handle_action_def skilled_state_def start_def)

text \<open>
  Claim C8, amended. \<^verbatim>\<open>done\<close> is terminal and clears the active skill and its instructions
  before the loop exits; \<^verbatim>\<open>ask_human\<close> and \<^verbatim>\<open>error\<close> are terminal too.
\<close>

theorem done_clears_skill_context:
  "fst (handle_action env i (Done summary r) st) = Break DoneExit \<and>
   activeSkillContext (snd (handle_action env i (Done summary r) st)) = None \<and>
   activeSkillName (snd (handle_action env i (Done summary r) st)) = None \<and>
   fst (handle_action env i (AskHuman question r) st) = Break AskHumanExit \<and>
   fst (handle_action env i (ErrorAction msg r) st) = Break AgentErrorExit"
  by (simp add: handle_action_def)


end
